theory Spec2Isabelle
  imports Complex_Main "HOL-Library.Word"
begin

section \<open>Data model\<close>

text \<open>
  The program (\<^verbatim>\<open>main.go\<close>) merges a stack of equally sized images pixel by pixel.
  The numeric core is \<^verbatim>\<open>meanColor\<close>; \<^verbatim>\<open>main\<close> drives it over every coordinate.

  Numbers. The source computes in \<^verbatim>\<open>float64\<close>. The conversion \<^verbatim>\<open>float64(r)\<close> of a
  \<^verbatim>\<open>uint32\<close> is exact. The statistics and the filtering pass of \<^verbatim>\<open>meanColor\<close>, where
  the rounding decides which samples survive, are embedded twice. The definitions whose
  names end in \<open>_fl\<close> take the rounding of \<^verbatim>\<open>float64\<close> as a parameter \<open>fl\<close>, applied
  to the result of every operation; \<open>round64\<close> below is the rounding of binary64 (to
  nearest, ties to even). The definitions without that suffix compute in \<^typ>\<open>real\<close>
  without rounding; they are the instances of the former at the identity. The special
  values NaN and infinity are not part of either model.
  Coordinates are Go \<^verbatim>\<open>int\<close>s; the loops only ever increment a value that is smaller
  than an existing \<^verbatim>\<open>int\<close>, so no overflow can occur and \<^typ>\<open>int\<close> is used.
\<close>

text \<open>\<^verbatim>\<open>image.Point\<close> and \<^verbatim>\<open>image.Rectangle\<close>.\<close>

record point =
  X :: int
  Y :: int

record rectangle =
  Min_pt :: point
  Max_pt :: point

text \<open>
  A \<^verbatim>\<open>color.Color\<close> is used only through its method \<^verbatim>\<open>RGBA()\<close>, which returns four
  \<^verbatim>\<open>uint32\<close> values. A colour is modelled by these four results.
\<close>

record color =
  red :: "32 word"
  green :: "32 word"
  blue :: "32 word"
  alpha :: "32 word"

text \<open>
  The contract of \<^verbatim>\<open>Color.RGBA\<close> in the Go library: each value ranges within
  \<^verbatim>\<open>[0, 0xffff]\<close>.
\<close>

definition in_range :: "color \<Rightarrow> bool" where
  "in_range c \<longleftrightarrow>
     unat (red c) \<le> 65535 \<and> unat (green c) \<le> 65535 \<and>
     unat (blue c) \<le> 65535 \<and> unat (alpha c) \<le> 65535"

text \<open>\<^verbatim>\<open>color.RGBA64\<close>, the value returned by \<^verbatim>\<open>meanColor\<close>.\<close>

datatype RGBA64 = RGBA64 (R: "16 word") (G: "16 word") (B: "16 word") (A: "16 word")

text \<open>
  An \<^verbatim>\<open>image.Image\<close> is used through \<^verbatim>\<open>Bounds()\<close> and \<^verbatim>\<open>At(x, y)\<close>.
\<close>

record image =
  Bounds :: rectangle
  At :: "int \<Rightarrow> int \<Rightarrow> color"

subsection \<open>Errors\<close>

text \<open>
  The errors of the statistics package, named as the specification names them.
\<close>

datatype stats_error = EmptyInputError | InsufficientSamplesError

text \<open>
  An error built by \<^verbatim>\<open>fmt.Errorf(format, args...)\<close> and a fatal message printed by
  \<^verbatim>\<open>log.Fatalf(format, args...)\<close> are kept as the format string with its arguments;
  the rendering of \<^verbatim>\<open>%v\<close> is not modelled. \<open>AFile p\<close> stands for the
  \<^verbatim>\<open>*os.File\<close> opened from the path \<open>p\<close>.
\<close>

datatype fmt_arg =
    AInt int
  | AStr string
  | AFloats "real list"
  | AFile string
  | ARect rectangle
  | AStats stats_error
  | AErr err
and err = Errorf string "fmt_arg list"

text \<open>
  A run of the program ends early through \<^verbatim>\<open>log.Fatalf\<close> or through a run-time
  panic (an index out of range).
\<close>

datatype fatal = Fatalf string "fmt_arg list" | Panic string

section \<open>Rounding of float64\<close>

text \<open>
  The result of a \<^verbatim>\<open>float64\<close> operation is the exact result rounded to the nearest
  binary64 number, ties to the one with an even significand. \<open>rne\<close> rounds to the nearest
  integer, ties to even. \<open>expo x\<close> is the exponent of the binade of \<open>x\<close>, not below
  that of the smallest normal number, so that \<open>ulp x\<close> is the spacing of the binary64
  numbers around \<open>x\<close> (53 significant bits, gradual underflow). Overflow to infinity is
  not modelled.
\<close>

definition rne :: "real \<Rightarrow> int" where
  "rne x =
     (let f = \<lfloor>x\<rfloor> in
      if x - of_int f < 1 / 2 then f
      else if x - of_int f > 1 / 2 then f + 1
      else if even f then f else f + 1)"

definition pow2 :: "int \<Rightarrow> real" where
  "pow2 i = (if 0 \<le> i then 2 ^ nat i else 1 / 2 ^ nat (- i))"

definition expo :: "real \<Rightarrow> int" where
  "expo x = max \<lfloor>log 2 \<bar>x\<bar>\<rfloor> (- 1022)"

definition ulp :: "real \<Rightarrow> real" where
  "ulp x = pow2 (expo x - 52)"

definition round_pos :: "real \<Rightarrow> real" where
  "round_pos x = of_int (rne (x / ulp x)) * ulp x"

definition round64 :: "real \<Rightarrow> real" where
  "round64 x = (if x < 0 then - round_pos (- x) else round_pos x)"

section \<open>The statistics package\<close>

text \<open>
  Modelled from the spec: \<^verbatim>\<open>stats.Mean\<close> of the imported package
  \<^verbatim>\<open>github.com/montanaflynn/stats\<close>, whose source is not part of the repository.
  The arithmetic mean of a non-empty sequence; \<^verbatim>\<open>EmptyInputError\<close> on the empty one.
  This is the mean in exact arithmetic; \<open>Mean_fl\<close> below is the one in
  double precision.
\<close>

definition Mean :: "real list \<Rightarrow> stats_error + real" where
  "Mean values =
     (if values = [] then Inl EmptyInputError
      else Inr (sum_list values / real (length values)))"

text \<open>
  Modelled from the spec: \<^verbatim>\<open>stats.StandardDeviationSample\<close> of the same package.
  The square root of the sum of squared deviations from the mean divided by
  (count - 1); \<^verbatim>\<open>InsufficientSamplesError\<close> when fewer than two values are supplied.
  This is the value in exact arithmetic; \<open>StandardDeviationSample_fl\<close> below is the one
  in double precision.
\<close>

definition StandardDeviationSample :: "real list \<Rightarrow> stats_error + real" where
  "StandardDeviationSample values =
     (if length values < 2 then Inl InsufficientSamplesError
      else
        (let m = sum_list values / real (length values)
         in Inr (sqrt (sum_list (map (\<lambda>v. (v - m) * (v - m)) values)
                        / (real (length values) - 1)))))"

text \<open>
  Modelled from the spec: the same two functions of the package
  \<^verbatim>\<open>github.com/montanaflynn/stats\<close> with the numeric semantics the specification
  prescribes, double precision throughout: the result of every operation is rounded by
  \<open>fl\<close>. The sum is accumulated from the left, starting at 0; the count is converted
  exactly.
\<close>

definition fsum :: "(real \<Rightarrow> real) \<Rightarrow> real list \<Rightarrow> real" where
  "fsum fl values = foldl (\<lambda>a v. fl (a + v)) 0 values"

definition Mean_fl :: "(real \<Rightarrow> real) \<Rightarrow> real list \<Rightarrow> stats_error + real" where
  "Mean_fl fl values =
     (if values = [] then Inl EmptyInputError
      else Inr (fl (fsum fl values / real (length values))))"

definition StandardDeviationSample_fl ::
  "(real \<Rightarrow> real) \<Rightarrow> real list \<Rightarrow> stats_error + real" where
  "StandardDeviationSample_fl fl values =
     (if length values < 2 then Inl InsufficientSamplesError
      else
        (let m = fl (fsum fl values / real (length values))
         in Inr (fl (sqrt (fl (fsum fl (map (\<lambda>v. fl (fl (v - m) * fl (v - m))) values)
                                / (real (length values) - 1)))))))"

section \<open>meanColor\<close>

text \<open>\<^verbatim>\<open>float64(r)\<close> for \<^verbatim>\<open>r\<close> of type \<^verbatim>\<open>uint32\<close>: exact.\<close>

definition float64 :: "32 word \<Rightarrow> real" where
  "float64 r = real (unat r)"

text \<open>
  \<^verbatim>\<open>uint16(f)\<close> for a \<^verbatim>\<open>float64\<close>: the fraction is discarded (truncation towards
  zero). Go leaves the result open when the truncated value does not fit; the model wraps
  it then, and the theorems below say when the value fits.
\<close>

definition uint16 :: "real \<Rightarrow> 16 word" where
  "uint16 f = word_of_int (if 0 \<le> f then \<lfloor>f\<rfloor> else \<lceil>f\<rceil>)"

text \<open>
  Lines 117-131: the loop over the four channel slices, appending to \<^verbatim>\<open>means\<close> and
  \<^verbatim>\<open>stddevs\<close>, returning at the first error.
\<close>

fun channel_stats ::
  "real list list \<Rightarrow> real list \<Rightarrow> real list \<Rightarrow> err + (real list \<times> real list)" where
  "channel_stats [] means stddevs = Inr (means, stddevs)"
| "channel_stats (c # channels) means stddevs =
     (case Mean c of
        Inl e \<Rightarrow> Inl (Errorf ''failed to compute mean for %v: %v'' [AFloats c, AStats e])
      | Inr m \<Rightarrow>
          (case StandardDeviationSample c of
             Inl e \<Rightarrow>
               Inl (Errorf ''failed to compute sample standard deviation %v: %v''
                      [AFloats c, AStats e])
           | Inr s \<Rightarrow> channel_stats channels (means @ [m]) (stddevs @ [s])))"

text \<open>The same loop over the statistics in double precision.\<close>

fun channel_stats_fl ::
  "(real \<Rightarrow> real) \<Rightarrow> real list list \<Rightarrow> real list \<Rightarrow> real list
   \<Rightarrow> err + (real list \<times> real list)" where
  "channel_stats_fl fl [] means stddevs = Inr (means, stddevs)"
| "channel_stats_fl fl (c # channels) means stddevs =
     (case Mean_fl fl c of
        Inl e \<Rightarrow> Inl (Errorf ''failed to compute mean for %v: %v'' [AFloats c, AStats e])
      | Inr m \<Rightarrow>
          (case StandardDeviationSample_fl fl c of
             Inl e \<Rightarrow>
               Inl (Errorf ''failed to compute sample standard deviation %v: %v''
                      [AFloats c, AStats e])
           | Inr s \<Rightarrow> channel_stats_fl fl channels (means @ [m]) (stddevs @ [s])))"

text \<open>
  The test of one channel in lines 138, 141, 144 and 147:
  \<^verbatim>\<open>v > means[k]+N*stddevs[k] || v < means[k]-N*stddevs[k]\<close>.
  \<open>outside_fl\<close> is the test as the program evaluates it: the product is rounded, then
  the sum or the difference is rounded (an implementation that fuses the multiplication
  with the addition rounds once; that variant is not modelled). \<open>outside\<close> is the test
  in exact arithmetic.
\<close>

definition outside_fl ::
  "(real \<Rightarrow> real) \<Rightarrow> real \<Rightarrow> real list \<Rightarrow> real list \<Rightarrow> nat \<Rightarrow> real \<Rightarrow> bool" where
  "outside_fl fl N means stddevs k v \<longleftrightarrow>
     v > fl (means ! k + fl (N * stddevs ! k)) \<or> v < fl (means ! k - fl (N * stddevs ! k))"

definition outside :: "real \<Rightarrow> real list \<Rightarrow> real list \<Rightarrow> nat \<Rightarrow> real \<Rightarrow> bool" where
  "outside N means stddevs k v \<longleftrightarrow>
     v > means ! k + N * stddevs ! k \<or> v < means ! k - N * stddevs ! k"

text \<open>
  Lines 138-149: the four tests in sequence; each one that fires leaves the iteration
  with \<^verbatim>\<open>continue\<close>.
\<close>

definition rejected :: "real \<Rightarrow> real list \<Rightarrow> real list \<Rightarrow> color \<Rightarrow> bool" where
  "rejected N means stddevs c =
     (if outside N means stddevs 0 (float64 (red c)) then True
      else if outside N means stddevs 1 (float64 (green c)) then True
      else if outside N means stddevs 2 (float64 (blue c)) then True
      else if outside N means stddevs 3 (float64 (alpha c)) then True
      else False)"

text \<open>The same four tests in sequence, each as the program evaluates it.\<close>

definition rejected_fl ::
  "(real \<Rightarrow> real) \<Rightarrow> real \<Rightarrow> real list \<Rightarrow> real list \<Rightarrow> color \<Rightarrow> bool" where
  "rejected_fl fl N means stddevs c =
     (if outside_fl fl N means stddevs 0 (float64 (red c)) then True
      else if outside_fl fl N means stddevs 1 (float64 (green c)) then True
      else if outside_fl fl N means stddevs 2 (float64 (blue c)) then True
      else if outside_fl fl N means stddevs 3 (float64 (alpha c)) then True
      else False)"

text \<open>
  Lines 134-154: the filtering loop with its four accumulators
  \<^verbatim>\<open>rsFilt, gsFilt, bsFilt, asFilt\<close>.
\<close>

fun filter_loop ::
  "real \<Rightarrow> real list \<Rightarrow> real list \<Rightarrow> color list \<Rightarrow>
   real list \<times> real list \<times> real list \<times> real list \<Rightarrow>
   real list \<times> real list \<times> real list \<times> real list" where
  "filter_loop N means stddevs [] acc = acc"
| "filter_loop N means stddevs (c # colors) (rsFilt, gsFilt, bsFilt, asFilt) =
     (if rejected N means stddevs c
      then filter_loop N means stddevs colors (rsFilt, gsFilt, bsFilt, asFilt)
      else filter_loop N means stddevs colors
             (rsFilt @ [float64 (red c)], gsFilt @ [float64 (green c)],
              bsFilt @ [float64 (blue c)], asFilt @ [float64 (alpha c)]))"

text \<open>The same loop with the tests as the program evaluates them.\<close>

fun filter_loop_fl ::
  "(real \<Rightarrow> real) \<Rightarrow> real \<Rightarrow> real list \<Rightarrow> real list \<Rightarrow> color list \<Rightarrow>
   real list \<times> real list \<times> real list \<times> real list \<Rightarrow>
   real list \<times> real list \<times> real list \<times> real list" where
  "filter_loop_fl fl N means stddevs [] acc = acc"
| "filter_loop_fl fl N means stddevs (c # colors) (rsFilt, gsFilt, bsFilt, asFilt) =
     (if rejected_fl fl N means stddevs c
      then filter_loop_fl fl N means stddevs colors (rsFilt, gsFilt, bsFilt, asFilt)
      else filter_loop_fl fl N means stddevs colors
             (rsFilt @ [float64 (red c)], gsFilt @ [float64 (green c)],
              bsFilt @ [float64 (blue c)], asFilt @ [float64 (alpha c)]))"

text \<open>
  \<^verbatim>\<open>meanColor\<close>. The flag \<^verbatim>\<open>*nFlag\<close>, read inside the loop in the source, is the
  parameter \<open>N\<close>.
\<close>

definition meanColor :: "real \<Rightarrow> color list \<Rightarrow> err + RGBA64" where
  "meanColor N colors =
     (let rs = map (\<lambda>c. float64 (red c)) colors;
          gs = map (\<lambda>c. float64 (green c)) colors;
          bs = map (\<lambda>c. float64 (blue c)) colors;
          as = map (\<lambda>c. float64 (alpha c)) colors;
          channels = [rs, gs, bs, as]
      in
      case channel_stats channels [] [] of
        Inl e \<Rightarrow> Inl e
      | Inr (means, stddevs) \<Rightarrow>
          (case filter_loop N means stddevs colors ([], [], [], []) of
             (rsFilt, gsFilt, bsFilt, asFilt) \<Rightarrow>
               if length rsFilt = 0 \<or> length gsFilt = 0 \<or> length bsFilt = 0
                  \<or> length asFilt = 0
               then Inl (Errorf ''standard deviation filter removed all pixels; use a higher --N value to make the filter more permissive'' [])
               else
                 (case Mean rsFilt of
                    Inl e \<Rightarrow>
                      Inl (Errorf ''failed to compute red output using pixels %v: %v''
                             [AFloats rsFilt, AStats e])
                  | Inr rMean \<Rightarrow>
                 (case Mean gsFilt of
                    Inl e \<Rightarrow>
                      Inl (Errorf ''failed to compute green output using pixels %v: %v''
                             [AFloats gsFilt, AStats e])
                  | Inr gMean \<Rightarrow>
                 (case Mean bsFilt of
                    Inl e \<Rightarrow>
                      Inl (Errorf ''failed to compute blue output using pixels %v: %v''
                             [AFloats bsFilt, AStats e])
                  | Inr bMean \<Rightarrow>
                 (case Mean asFilt of
                    Inl e \<Rightarrow>
                      Inl (Errorf ''failed to compute alpha output using pixels %v: %v''
                             [AFloats asFilt, AStats e])
                  | Inr aMean \<Rightarrow>
                      Inr (RGBA64 (uint16 rMean) (uint16 gMean) (uint16 bMean)
                             (uint16 aMean))))))))"

section \<open>main\<close>

text \<open>
  What \<^verbatim>\<open>main\<close> reads from its environment: the three flags, the result of
  \<^verbatim>\<open>filepath.Glob(*pathFlag)\<close>, for every path the result of \<^verbatim>\<open>os.Open\<close> followed by
  \<^verbatim>\<open>image.Decode\<close>, and the results of \<^verbatim>\<open>os.Create(*outFlag)\<close> and
  \<^verbatim>\<open>jpeg.Encode\<close>.
\<close>

datatype loaded = OpenFails err | DecodeFails err | Decoded image

record env =
  pathFlag :: string
  outFlag :: string
  nFlag :: real
  Glob :: "err + string list"
  Open_Decode :: "string \<Rightarrow> loaded"
  Create :: "err option"
  Encode :: "(int \<times> int \<times> RGBA64) list \<Rightarrow> err option"

text \<open>
  What a run does, as far as the claims need it: \<open>failure\<close> is the fatal exit, if any;
  \<open>calls\<close> lists the coordinates at which \<^verbatim>\<open>meanColor\<close> was invoked, in order;
  \<open>writes\<close> lists the calls \<^verbatim>\<open>out.Set(x, y, c)\<close>, in order.
\<close>

record run =
  failure :: "fatal option"
  calls :: "(int \<times> int) list"
  writes :: "(int \<times> int \<times> RGBA64) list"

definition stop :: "fatal \<Rightarrow> run" where
  "stop f = \<lparr>failure = Some f, calls = [], writes = []\<rparr>"

text \<open>Lines 44-57: opening and decoding every path.\<close>

fun load_images :: "(string \<Rightarrow> loaded) \<Rightarrow> string list \<Rightarrow> image list \<Rightarrow> fatal + image list" where
  "load_images fs [] images = Inr images"
| "load_images fs (p # paths) images =
     (case fs p of
        OpenFails e \<Rightarrow> Inl (Fatalf ''failed opening %v: %v'' [AStr p, AErr e])
      | DecodeFails e \<Rightarrow> Inl (Fatalf ''failed decoding image %v: %v'' [AFile p, AErr e])
      | Decoded i \<Rightarrow> load_images fs paths (images @ [i]))"

text \<open>
  Lines 60-64: every image's bounds are compared with \<^verbatim>\<open>bounds\<close>. The comparison
  \<^verbatim>\<open>!=\<close> on \<^verbatim>\<open>image.Rectangle\<close> is equality of the four coordinates.
\<close>

fun check_bounds :: "rectangle \<Rightarrow> image list \<Rightarrow> fatal option" where
  "check_bounds bounds [] = None"
| "check_bounds bounds (i # images) =
     (if Bounds i \<noteq> bounds
      then Some (Fatalf ''unsupported operation; cannot merge images of different sizes: %v, %v''
                   [ARect (Bounds i), ARect bounds])
      else check_bounds bounds images)"

text \<open>\<^verbatim>\<open>colors(x, y, images)\<close>, lines 93-99.\<close>

definition colors :: "int \<Rightarrow> int \<Rightarrow> image list \<Rightarrow> color list" where
  "colors x y images = map (\<lambda>i. At i x y) images"

text \<open>The inner loop, lines 71-78, from the current \<open>x\<close> on.\<close>

function x_loop :: "real \<Rightarrow> image list \<Rightarrow> rectangle \<Rightarrow> int \<Rightarrow> int \<Rightarrow> run \<Rightarrow> run" where
  "x_loop N images bounds y x st =
     (if x < X (Max_pt bounds) then
        (case meanColor N (colors x y images) of
           Inl e \<Rightarrow>
             st\<lparr>failure :=
                  Some (Fatalf ''failed to get mean pixel color at x=%v y=%v: %v''
                          [AInt x, AInt y, AErr e]),
                calls := calls st @ [(x, y)]\<rparr>
         | Inr c \<Rightarrow>
             x_loop N images bounds y (x + 1)
               (st\<lparr>calls := calls st @ [(x, y)], writes := writes st @ [(x, y, c)]\<rparr>))
      else st)"
  by pat_completeness auto
termination
  by (relation "measure (\<lambda>(N, images, bounds, y, x, st). nat (X (Max_pt bounds) - x))") auto

text \<open>The outer loop, lines 70-79, from the current \<open>y\<close> on.\<close>

function y_loop :: "real \<Rightarrow> image list \<Rightarrow> rectangle \<Rightarrow> int \<Rightarrow> run \<Rightarrow> run" where
  "y_loop N images bounds y st =
     (if y < Y (Max_pt bounds) then
        (let st' = x_loop N images bounds y (X (Min_pt bounds)) st
         in if failure st' \<noteq> None then st' else y_loop N images bounds (y + 1) st')
      else st)"
  by pat_completeness auto
termination
  by (relation "measure (\<lambda>(N, images, bounds, y, st). nat (Y (Max_pt bounds) - y))") auto

text \<open>
  \<^verbatim>\<open>main\<close>. \<^verbatim>\<open>images[0]\<close> panics on an empty slice; the test on \<^verbatim>\<open>len(paths)\<close>
  makes that branch unreachable.
\<close>

definition main_run :: "env \<Rightarrow> run" where
  "main_run e =
     (case Glob e of
        Inl er \<Rightarrow> stop (Fatalf ''failed to parse path: %v'' [AErr er])
      | Inr paths \<Rightarrow>
          if length paths = 0
          then stop (Fatalf ''no files found for path: %v'' [AStr (pathFlag e)])
          else
            (case load_images (Open_Decode e) paths [] of
               Inl f \<Rightarrow> stop f
             | Inr images \<Rightarrow>
                 (case images of
                    [] \<Rightarrow> stop (Panic ''index out of range'')
                  | i0 # _ \<Rightarrow>
                      (let bounds = Bounds i0 in
                       case check_bounds bounds images of
                         Some f \<Rightarrow> stop f
                       | None \<Rightarrow>
                           (let st = y_loop (nFlag e) images bounds (Y (Min_pt bounds))
                                       \<lparr>failure = None, calls = [], writes = []\<rparr>
                            in if failure st \<noteq> None then st
                               else
                                 (case Create e of
                                    Some er \<Rightarrow>
                                      st\<lparr>failure :=
                                           Some (Fatalf ''failed to create output file %v: %v''
                                                   [AStr (outFlag e), AErr er])\<rparr>
                                  | None \<Rightarrow>
                                      (case Encode e (writes st) of
                                         Some er \<Rightarrow>
                                           st\<lparr>failure :=
                                                Some (Fatalf ''failed to save image to output file %v: %v''
                                                        [AStr (outFlag e), AErr er])\<rparr>
                                       | None \<Rightarrow> st)))))))"

text \<open>
  The equations of the two loops are unconditional; they are unfolded by hand where needed.
\<close>

declare x_loop.simps [simp del]
declare y_loop.simps [simp del]

section \<open>Vocabulary of the properties\<close>

text \<open>
  The channel of a colour by index, in the index scheme of the source
  (\<^verbatim>\<open>R=0, G=1, B=2, A=3\<close>), as the \<^verbatim>\<open>float64\<close> that \<^verbatim>\<open>meanColor\<close> works with; and
  the four channel slices that \<^verbatim>\<open>meanColor\<close> builds from a stack (lines 104-113).
\<close>

definition channel :: "nat \<Rightarrow> color \<Rightarrow> real" where
  "channel k c =
     (if k = 0 then float64 (red c) else if k = 1 then float64 (green c)
      else if k = 2 then float64 (blue c) else float64 (alpha c))"

definition channels_of :: "color list \<Rightarrow> real list list" where
  "channels_of cs =
     [map (channel 0) cs, map (channel 1) cs, map (channel 2) cs, map (channel 3) cs]"

text \<open>
  The coordinates of a rectangle in the order in which the two loops of \<^verbatim>\<open>main\<close> visit
  them: rows from \<^verbatim>\<open>Min.Y\<close> up, and within a row from \<^verbatim>\<open>Min.X\<close> up.
\<close>

definition coords :: "rectangle \<Rightarrow> (int \<times> int) list" where
  "coords b =
     concat (map (\<lambda>y. map (\<lambda>x. (x, y)) [X (Min_pt b)..X (Max_pt b) - 1])
               [Y (Min_pt b)..Y (Max_pt b) - 1])"

text \<open>
  The body of the inner loop applied along a list of coordinates. The two loops of
  \<^verbatim>\<open>main\<close> are shown below to be this pass along \<open>coords\<close>.
\<close>

fun run_coords :: "real \<Rightarrow> image list \<Rightarrow> (int \<times> int) list \<Rightarrow> run \<Rightarrow> run" where
  "run_coords N images [] st = st"
| "run_coords N images ((x, y) # ps) st =
     (case meanColor N (colors x y images) of
        Inl e \<Rightarrow>
          st\<lparr>failure :=
               Some (Fatalf ''failed to get mean pixel color at x=%v y=%v: %v''
                       [AInt x, AInt y, AErr e]),
             calls := calls st @ [(x, y)]\<rparr>
      | Inr c \<Rightarrow>
          run_coords N images ps
            (st\<lparr>calls := calls st @ [(x, y)], writes := writes st @ [(x, y, c)]\<rparr>))"


section \<open>Example inputs\<close>

text \<open>
  A stack of four pixels whose red values are 1, 1, 1 and 5 and whose other channels are
  constant: the red mean is 2 and the red sample standard deviation is 2.
\<close>

definition stack1 :: "color list" where
  "stack1 =
     [\<lparr>red = 1, green = 0, blue = 0, alpha = 65535\<rparr>,
      \<lparr>red = 1, green = 0, blue = 0, alpha = 65535\<rparr>,
      \<lparr>red = 1, green = 0, blue = 0, alpha = 65535\<rparr>,
      \<lparr>red = 5, green = 0, blue = 0, alpha = 65535\<rparr>]"

text \<open>
  A stack of five pixels whose red values are 0, 1, 4, 8 and 12: the red mean is 5 and the
  red sample standard deviation is 5, both computed without rounding error. \<open>N14\<close> is
  the \<^verbatim>\<open>float64\<close> nearest to 1.4, which is below 1.4; \<open>tenth\<close> is the one nearest
  to 0.1.
\<close>

definition stack2 :: "color list" where
  "stack2 =
     [\<lparr>red = 0, green = 0, blue = 0, alpha = 65535\<rparr>,
      \<lparr>red = 1, green = 0, blue = 0, alpha = 65535\<rparr>,
      \<lparr>red = 4, green = 0, blue = 0, alpha = 65535\<rparr>,
      \<lparr>red = 8, green = 0, blue = 0, alpha = 65535\<rparr>,
      \<lparr>red = 12, green = 0, blue = 0, alpha = 65535\<rparr>]"

definition N14 :: real where
  "N14 = 3152519739159347 / 2251799813685248"

definition tenth :: real where
  "tenth = 3602879701896397 / 36028797018963968"

text \<open>
  Images of one pixel and of two pixels in a row, and environments in which every listed
  file opens and decodes. \<open>single_env\<close> holds one image; \<open>reject_env\<close> holds four
  images that agree at \<open>(0, 0)\<close> and form \<open>stack1\<close> at \<open>(1, 0)\<close>, with \<open>N = 1/4\<close>;
  \<open>mismatch_env\<close> holds two images of different bounds.
\<close>

definition unit_image :: "color \<Rightarrow> image" where
  "unit_image c =
     \<lparr>Bounds = \<lparr>Min_pt = \<lparr>X = 0, Y = 0\<rparr>, Max_pt = \<lparr>X = 1, Y = 1\<rparr>\<rparr>,
      At = (\<lambda>x y. c)\<rparr>"

definition two_pixel_image :: "color \<Rightarrow> color \<Rightarrow> image" where
  "two_pixel_image a b =
     \<lparr>Bounds = \<lparr>Min_pt = \<lparr>X = 0, Y = 0\<rparr>, Max_pt = \<lparr>X = 2, Y = 1\<rparr>\<rparr>,
      At = (\<lambda>x y. if x = 0 then a else b)\<rparr>"

definition example_env :: "real \<Rightarrow> (string \<times> image) list \<Rightarrow> env" where
  "example_env N files =
     \<lparr>pathFlag = ''in/*.jpeg'', outFlag = ''out.jpeg'', nFlag = N,
      Glob = Inr (map fst files),
      Open_Decode =
        (\<lambda>p. case map_of files p of
                Some i \<Rightarrow> Decoded i
              | None \<Rightarrow> OpenFails (Errorf ''no such file or directory'' [])),
      Create = None,
      Encode = (\<lambda>w. None)\<rparr>"

definition pixel1 :: color where
  "pixel1 = \<lparr>red = 1, green = 0, blue = 0, alpha = 65535\<rparr>"


definition single_env :: env where
  "single_env = example_env (13 / 10) [(''in/1.jpeg'', unit_image pixel1)]"



definition mismatch_env :: env where
  "mismatch_env =
     example_env (13 / 10)
       [(''in/1.jpeg'', unit_image pixel1), (''in/2.jpeg'', two_pixel_image pixel1 pixel1)]"


section \<open>Properties of the rounding\<close>

lemma rne_int [simp]: "rne (of_int k) = k"
  by (simp add: rne_def)

lemma rne_0 [simp]: "rne 0 = 0"
  using rne_int [of 0] by simp

lemma rne_lower: "\<lfloor>x\<rfloor> \<le> rne x"
  by (simp add: rne_def Let_def)

lemma rne_upper: "rne x \<le> \<lfloor>x\<rfloor> + 1"
  by (simp add: rne_def Let_def)

lemma rne_mono:
  assumes "x \<le> y"
  shows "rne x \<le> rne y"
proof (cases "\<lfloor>x\<rfloor> = \<lfloor>y\<rfloor>")
  case True
  with assms show ?thesis
    by (auto simp: rne_def Let_def)
next
  case False
  with assms have "\<lfloor>x\<rfloor> < \<lfloor>y\<rfloor>" using floor_mono [OF assms] by linarith
  then have "rne x \<le> \<lfloor>y\<rfloor>" using rne_upper [of x] by linarith
  also have "\<dots> \<le> rne y" by (rule rne_lower)
  finally show ?thesis .
qed

lemma rne_ge: "of_int a \<le> x \<Longrightarrow> a \<le> rne x"
  using rne_mono [of "of_int a" x] by simp

lemma rne_le: "x \<le> of_int b \<Longrightarrow> rne x \<le> b"
  using rne_mono [of x "of_int b"] by simp

lemma pow2_powr: "pow2 i = 2 powr real_of_int i"
proof (cases "0 \<le> i")
  case True
  then have "2 powr real_of_int i = 2 powr real (nat i)" by simp
  also have "\<dots> = 2 ^ nat i" by (rule powr_realpow) simp
  finally show ?thesis using True by (simp add: pow2_def)
next
  case False
  then have "2 powr real_of_int i = 2 powr (- real (nat (- i)))" by simp
  also have "\<dots> = inverse (2 powr real (nat (- i)))" by (rule powr_minus)
  also have "2 powr real (nat (- i)) = 2 ^ nat (- i)" by (rule powr_realpow) simp
  finally show ?thesis using False by (simp add: pow2_def inverse_eq_divide)
qed

lemma pow2_pos [simp]: "0 < pow2 i"
  by (simp add: pow2_powr)

lemma pow2_nonneg [simp]: "0 \<le> pow2 i"
  using pow2_pos [of i] by (rule less_imp_le)

lemma pow2_add: "pow2 (i + j) = pow2 i * pow2 j"
  by (simp add: pow2_powr powr_add)

lemma pow2_mono: "i \<le> j \<Longrightarrow> pow2 i \<le> pow2 j"
  unfolding pow2_powr by (rule powr_mono) simp_all

lemma pow2_nat: "pow2 (int n) = 2 ^ n"
  by (simp add: pow2_def)

lemma ulp_pos [simp]: "0 < ulp x"
  by (simp add: ulp_def)

lemma ulp_nonneg [simp]: "0 \<le> ulp x"
  using ulp_pos [of x] by (rule less_imp_le)

lemma ulp_not_neg [simp]: "\<not> ulp x < 0"
  using ulp_pos [of x] by linarith

lemma scale_ulp: "pow2 k * ulp x = pow2 (expo x + (k - 52))"
  unfolding ulp_def by (simp flip: pow2_add add: algebra_simps)

lemma round_pos_0 [simp]: "round_pos 0 = 0"
  by (simp add: round_pos_def)

lemma round64_0 [simp]: "round64 0 = 0"
  by (simp add: round64_def)

lemma round_pos_nonneg:
  assumes "0 \<le> x"
  shows "0 \<le> round_pos x"
proof -
  from assms have "of_int 0 \<le> x / ulp x" by (simp add: zero_le_divide_iff)
  then have "0 \<le> rne (x / ulp x)" by (rule rne_ge)
  then show ?thesis by (simp add: round_pos_def zero_le_mult_iff)
qed

lemma floor_log2_bounds:
  assumes "0 < x"
  shows "pow2 \<lfloor>log 2 x\<rfloor> \<le> x" "x < pow2 (\<lfloor>log 2 x\<rfloor> + 1)"
proof -
  have "\<lfloor>log 2 x\<rfloor> = \<lfloor>log 2 x\<rfloor> \<longleftrightarrow>
          2 powr real_of_int \<lfloor>log 2 x\<rfloor> \<le> x \<and> x < 2 powr real_of_int (\<lfloor>log 2 x\<rfloor> + 1)"
    using assms by (intro floor_log_eq_powr_iff) simp_all
  then show "pow2 \<lfloor>log 2 x\<rfloor> \<le> x" "x < pow2 (\<lfloor>log 2 x\<rfloor> + 1)"
    by (simp_all add: pow2_powr)
qed

lemma expo_mono: "0 < x \<Longrightarrow> x \<le> y \<Longrightarrow> expo x \<le> expo y"
  unfolding expo_def by (intro max.mono floor_mono) simp_all

lemma expo_lower: "0 < x \<Longrightarrow> - 1022 < expo x \<Longrightarrow> pow2 (expo x) \<le> x"
proof -
  assume x: "0 < x" and e: "- 1022 < expo x"
  then have "expo x = \<lfloor>log 2 x\<rfloor>" by (simp add: expo_def max_def split: if_splits)
  with floor_log2_bounds(1) [OF x] show ?thesis by simp
qed

lemma expo_upper:
  assumes x: "0 < x"
  shows "x < pow2 (expo x + 1)"
proof -
  have "\<lfloor>log 2 x\<rfloor> + 1 \<le> expo x + 1" using x by (simp add: expo_def)
  then have "pow2 (\<lfloor>log 2 x\<rfloor> + 1) \<le> pow2 (expo x + 1)" by (rule pow2_mono)
  with floor_log2_bounds(2) [OF x] show ?thesis by linarith
qed

lemma round_pos_upper:
  assumes "0 < x"
  shows "round_pos x \<le> pow2 (expo x + 1)"
proof -
  have "pow2 (expo x + 1) = pow2 53 * ulp x" by (simp add: scale_ulp)
  with expo_upper [OF assms] have "x / ulp x < pow2 53"
    by (simp add: pos_divide_less_eq)
  also have "pow2 53 = of_int (2 ^ 53)" by (simp add: pow2_def)
  finally have "rne (x / ulp x) \<le> 2 ^ 53" by (intro rne_le) simp
  then have "real_of_int (rne (x / ulp x)) \<le> real_of_int (2 ^ 53)"
    by (simp only: of_int_le_iff)
  also have "real_of_int (2 ^ 53) = pow2 53" by (simp add: pow2_def)
  finally have "round_pos x \<le> pow2 53 * ulp x"
    by (simp add: round_pos_def)
  then show ?thesis by (simp add: scale_ulp)
qed

lemma round_pos_lower:
  assumes "0 < x" "- 1022 < expo x"
  shows "pow2 (expo x) \<le> round_pos x"
proof -
  have e: "pow2 (expo x) = pow2 52 * ulp x" by (simp add: scale_ulp)
  with expo_lower [OF assms] have "pow2 52 \<le> x / ulp x"
    by (simp add: pos_le_divide_eq)
  moreover have p: "pow2 52 = of_int (2 ^ 52)" by (simp add: pow2_def)
  ultimately have "2 ^ 52 \<le> rne (x / ulp x)" by (intro rne_ge) simp
  then have "real_of_int (2 ^ 52) \<le> real_of_int (rne (x / ulp x))"
    by (simp only: of_int_le_iff)
  then have "pow2 52 * ulp x \<le> round_pos x"
    unfolding p by (simp add: round_pos_def)
  then show ?thesis by (simp add: e)
qed

lemma round_pos_mono:
  assumes "0 \<le> x" "x \<le> y"
  shows "round_pos x \<le> round_pos y"
proof (cases "x = 0")
  case True
  with assms round_pos_nonneg [of y] show ?thesis by simp
next
  case False
  with assms have x: "0 < x" and y: "0 < y" by simp_all
  from expo_mono [OF x assms(2)] consider "expo x = expo y" | "expo x < expo y" by linarith
  then show ?thesis
  proof cases
    case 1
    then have u: "ulp x = ulp y" by (simp add: ulp_def)
    from assms(2) have "x / ulp y \<le> y / ulp y" by (simp add: divide_le_cancel)
    then have "rne (x / ulp y) \<le> rne (y / ulp y)" by (rule rne_mono)
    then show ?thesis by (simp add: round_pos_def u)
  next
    case 2
    then have "pow2 (expo x + 1) \<le> pow2 (expo y)" by (intro pow2_mono) simp
    moreover have "- 1022 \<le> expo x" by (simp add: expo_def)
    with 2 have "- 1022 < expo y" by linarith
    ultimately show ?thesis
      using round_pos_upper [OF x] round_pos_lower [OF y] by linarith
  qed
qed

lemma round64_mono: "x \<le> y \<Longrightarrow> round64 x \<le> round64 y"
proof -
  assume xy: "x \<le> y"
  consider "0 \<le> x" | "x < 0" "0 \<le> y" | "y < 0" using xy by linarith
  then show ?thesis
  proof cases
    case 1
    with xy show ?thesis by (simp add: round64_def round_pos_mono)
  next
    case 2
    then have "round_pos (- x) \<ge> 0" "round_pos y \<ge> 0" by (simp_all add: round_pos_nonneg)
    with 2 show ?thesis by (simp add: round64_def)
  next
    case 3
    with xy have "round_pos (- y) \<le> round_pos (- x)" by (intro round_pos_mono) simp_all
    with 3 xy show ?thesis by (simp add: round64_def)
  qed
qed


lemma pow2_less_cancel: "pow2 i < pow2 j \<Longrightarrow> i < j"
  using pow2_mono [of j i] by (cases "i < j") auto

lemma expo_eq:
  assumes "0 < x" "pow2 e \<le> x" "x < pow2 (e + 1)" "- 1022 \<le> e"
  shows "expo x = e"
proof -
  have "\<lfloor>log 2 x\<rfloor> = e \<longleftrightarrow>
          2 powr real_of_int e \<le> x \<and> x < 2 powr real_of_int (e + 1)"
    using assms(1) by (intro floor_log_eq_powr_iff) simp_all
  with assms(2,3) have "\<lfloor>log 2 x\<rfloor> = e" by (simp add: pow2_powr)
  with assms(1,4) show ?thesis by (simp add: expo_def)
qed

lemma round_pos_at:
  assumes "0 < x" "pow2 e \<le> x" "x < pow2 (e + 1)" "- 1022 \<le> e"
  shows "round_pos x = of_int (rne (x / pow2 (e - 52))) * pow2 (e - 52)"
  by (simp add: round_pos_def ulp_def expo_eq [OF assms])

lemma round_pos_exact:
  assumes k: "0 < k" "k < 2 ^ 53" and j: "- 1074 \<le> j"
  shows "round_pos (of_int k * pow2 j) = of_int k * pow2 j"
proof -
  define x where "x = real_of_int k * pow2 j"
  from k have x: "0 < x" by (simp add: x_def)
  have le: "expo x \<le> j + 52"
  proof (cases "- 1022 < expo x")
    case True
    from k(2) have "real_of_int k < real_of_int (2 ^ 53)" by (simp only: of_int_less_iff)
    also have "real_of_int (2 ^ 53) = pow2 53" by (simp add: pow2_def)
    finally have "real_of_int k < pow2 53" .
    then have "x < pow2 53 * pow2 j" unfolding x_def by (rule mult_strict_right_mono) simp
    also have "\<dots> = pow2 (53 + j)" by (simp only: pow2_add)
    finally have "pow2 (expo x) < pow2 (53 + j)"
      using expo_lower [OF x True] by linarith
    then have "expo x < 53 + j" by (rule pow2_less_cancel)
    then show ?thesis by simp
  next
    case False
    moreover have "- 1022 \<le> expo x" by (simp add: expo_def)
    ultimately have "expo x = - 1022" by simp
    with j show ?thesis by simp
  qed
  define n where "n = nat (j + 52 - expo x)"
  from le have n: "int n = j + 52 - expo x" by (simp add: n_def)
  define u where "u = ulp x"
  have u: "0 < u" by (simp add: u_def)
  have "pow2 j = pow2 (int n + (expo x - 52))" by (simp add: n)
  also have "\<dots> = 2 ^ n * u" by (simp only: pow2_add pow2_nat ulp_def u_def)
  finally have pj: "pow2 j = 2 ^ n * u" .
  have xe: "x = real_of_int (k * 2 ^ n) * u" by (simp add: x_def pj)
  then have "x / u = real_of_int (k * 2 ^ n)" using u by simp
  then have "rne (x / u) = k * 2 ^ n" by (simp only: rne_int)
  then have "round_pos x = real_of_int (k * 2 ^ n) * u"
    by (simp only: round_pos_def u_def)
  with xe have "round_pos x = x" by simp
  then show ?thesis by (simp only: x_def)
qed

lemma round64_exact:
  assumes k: "\<bar>k\<bar> < 2 ^ 53" and j: "- 1074 \<le> j"
  shows "round64 (of_int k * pow2 j) = of_int k * pow2 j"
proof -
  consider "k = 0" | "0 < k" | "k < 0" by linarith
  then show ?thesis
  proof cases
    case 1
    then show ?thesis by simp
  next
    case 2
    with k have "k < 2 ^ 53" by simp
    moreover from 2 have "0 < real_of_int k * pow2 j" by simp
    then have "\<not> real_of_int k * pow2 j < 0" by linarith
    ultimately show ?thesis using round_pos_exact [OF 2 _ j]
      by (simp add: round64_def)
  next
    case 3
    with k have p: "0 < - k" "- k < 2 ^ 53" by simp_all
    from 3 have neg: "real_of_int k * pow2 j < 0" by (simp add: mult_less_0_iff)
    from round_pos_exact [OF p j] neg show ?thesis by (simp add: round64_def)
  qed
qed

lemma round64_int: "\<bar>k\<bar> < 2 ^ 53 \<Longrightarrow> round64 (of_int k) = of_int k"
  using round64_exact [of k 0] by (simp add: pow2_def)

lemma pow2_neg_nat: "pow2 (- int n) = 1 / 2 ^ n"
  by (cases "n = 0") (simp_all add: pow2_def)

lemma round64_dyadic:
  "\<bar>k\<bar> < 2 ^ 53 \<Longrightarrow> n \<le> 1074 \<Longrightarrow> round64 (of_int k / 2 ^ n) = of_int k / 2 ^ n"
  using round64_exact [of k "- int n"] by (simp add: pow2_neg_nat)

lemma round64_numeral [simp]:
  "numeral w < (9007199254740992 :: int) \<Longrightarrow> round64 (numeral w) = numeral w"
  using round64_int [of "numeral w"] by simp

lemma round64_neg_numeral [simp]:
  "numeral w < (9007199254740992 :: int) \<Longrightarrow> round64 (- numeral w) = - numeral w"
  using round64_int [of "- numeral w"] by simp

lemma round64_1 [simp]: "round64 1 = 1"
  using round64_int [of 1] by simp

lemma round64_neg_1 [simp]: "round64 (- 1) = - 1"
  using round64_int [of "- 1"] by simp

lemma round64_at:
  assumes "0 < x" "pow2 e \<le> x" "x < pow2 (e + 1)" "- 1022 \<le> e"
  shows "round64 x = of_int (rne (x / pow2 (e - 52))) * pow2 (e - 52)"
  using assms(1) round_pos_at [OF assms] by (simp add: round64_def)


lemma round64_minus: "round64 (- x) = - round64 x"
  by (cases x "0::real" rule: linorder_cases) (simp_all add: round64_def)

lemma round64_nonneg: "0 \<le> x \<Longrightarrow> 0 \<le> round64 x"
  using round64_mono [of 0 x] by simp

lemma round64_pow2: "- 1074 \<le> j \<Longrightarrow> round64 (pow2 j) = pow2 j"
  using round64_exact [of 1 j] by simp

lemma mono_round64: "mono round64"
  by (rule monoI) (rule round64_mono)

section \<open>The statistics package: sample standard deviation\<close>

lemma sum_list_const:
  fixes v :: real
  shows "\<forall>x\<in>set xs. x = v \<Longrightarrow> sum_list xs = real (length xs) * v"
  by (induction xs) (simp_all add: algebra_simps)

lemma mean_const:
  fixes v :: real
  assumes "xs \<noteq> []" "\<forall>x\<in>set xs. x = v"
  shows "sum_list xs / real (length xs) = v"
  using assms by (simp add: sum_list_const)

lemma sum_squares_zero_iff:
  fixes m :: real
  shows "sum_list (map (\<lambda>v. (v - m) * (v - m)) xs) = 0 \<longleftrightarrow> (\<forall>x\<in>set xs. x = m)"
proof -
  have "sum_list (map (\<lambda>v. (v - m) * (v - m)) xs) = 0
        \<longleftrightarrow> (\<forall>q\<in>set (map (\<lambda>v. (v - m) * (v - m)) xs). q = 0)"
    by (rule sum_list_nonneg_eq_0_iff) auto
  then show ?thesis by auto
qed

lemma sum_squares_nonneg:
  fixes m :: real
  shows "0 \<le> sum_list (map (\<lambda>v. (v - m) * (v - m)) xs)"
  by (rule sum_list_nonneg) auto

lemma sd_value:
  assumes "2 \<le> length xs"
  shows "StandardDeviationSample xs =
           Inr (sqrt (sum_list (map (\<lambda>v. (v - sum_list xs / real (length xs))
                                        * (v - sum_list xs / real (length xs))) xs)
                       / (real (length xs) - 1)))"
  using assms by (simp add: StandardDeviationSample_def Let_def)

lemma sd_nonneg: "StandardDeviationSample xs = Inr s \<Longrightarrow> 0 \<le> s"
  by (auto simp: StandardDeviationSample_def Let_def sum_squares_nonneg split: if_splits)

lemma sd_zero_iff:
  assumes len: "2 \<le> length xs" and sd: "StandardDeviationSample xs = Inr s"
  shows "s = 0 \<longleftrightarrow> (\<forall>x\<in>set xs. \<forall>y\<in>set xs. x = y)"
proof -
  define m where "m = sum_list xs / real (length xs)"
  define q where "q = sum_list (map (\<lambda>v. (v - m) * (v - m)) xs)"
  from len have ne: "xs \<noteq> []" by auto
  from len have pos: "0 < real (length xs) - 1" by simp
  have s: "s = sqrt (q / (real (length xs) - 1))"
    using sd sd_value [OF len] by (simp add: q_def m_def)
  have "s = 0 \<longleftrightarrow> q = 0" using pos by (simp add: s)
  also have "\<dots> \<longleftrightarrow> (\<forall>x\<in>set xs. x = m)" by (simp add: q_def sum_squares_zero_iff)
  also have "\<dots> \<longleftrightarrow> (\<forall>x\<in>set xs. \<forall>y\<in>set xs. x = y)"
  proof
    assume "\<forall>x\<in>set xs. x = m"
    then show "\<forall>x\<in>set xs. \<forall>y\<in>set xs. x = y" by metis
  next
    assume eq: "\<forall>x\<in>set xs. \<forall>y\<in>set xs. x = y"
    from ne obtain v where v: "v \<in> set xs" by (cases xs) auto
    with eq have all: "\<forall>x\<in>set xs. x = v" by blast
    then have "m = v" unfolding m_def using ne by (rule mean_const [rotated])
    with all show "\<forall>x\<in>set xs. x = m" by simp
  qed
  finally show ?thesis .
qed

section \<open>The filtering pass\<close>

lemma ex_less_4: "(\<exists>k<4::nat. P k) \<longleftrightarrow> P 0 \<or> P 1 \<or> P 2 \<or> P 3"
proof
  assume "\<exists>k<4::nat. P k"
  then obtain k where "k < 4" "P k" by blast
  then have "k = 0 \<or> k = 1 \<or> k = 2 \<or> k = 3" by arith
  with \<open>P k\<close> show "P 0 \<or> P 1 \<or> P 2 \<or> P 3" by auto
next
  assume "P 0 \<or> P 1 \<or> P 2 \<or> P 3"
  moreover have "(0::nat) < 4" "(1::nat) < 4" "(2::nat) < 4" "(3::nat) < 4" by simp_all
  ultimately show "\<exists>k<4::nat. P k" by blast
qed

lemma all_less_4: "(\<forall>k<4::nat. P k) \<longleftrightarrow> P 0 \<and> P 1 \<and> P 2 \<and> P 3"
  using ex_less_4 [of "\<lambda>k. \<not> P k"] by blast

lemma filter_loop_eq:
  "filter_loop N means stddevs cs (rs, gs, bs, as) =
     (rs @ map (channel 0) (filter (\<lambda>c. \<not> rejected N means stddevs c) cs),
      gs @ map (channel 1) (filter (\<lambda>c. \<not> rejected N means stddevs c) cs),
      bs @ map (channel 2) (filter (\<lambda>c. \<not> rejected N means stddevs c) cs),
      as @ map (channel 3) (filter (\<lambda>c. \<not> rejected N means stddevs c) cs))"
  by (induction cs arbitrary: rs gs bs as) (simp_all add: channel_def)

lemma rejected_iff:
  "rejected N means stddevs c \<longleftrightarrow> (\<exists>k<4. outside N means stddevs k (channel k c))"
  by (simp add: ex_less_4 rejected_def channel_def)

lemma channel_stats_four:
  "channel_stats [a, b, c, d] [] [] = Inr (means, stddevs) \<longleftrightarrow>
     (\<exists>ma sa mb sb mc sc md sd.
        Mean a = Inr ma \<and> StandardDeviationSample a = Inr sa \<and>
        Mean b = Inr mb \<and> StandardDeviationSample b = Inr sb \<and>
        Mean c = Inr mc \<and> StandardDeviationSample c = Inr sc \<and>
        Mean d = Inr md \<and> StandardDeviationSample d = Inr sd \<and>
        means = [ma, mb, mc, md] \<and> stddevs = [sa, sb, sc, sd])"
  by (auto split: sum.splits)

lemma stddevs_nonneg:
  assumes "channel_stats [a, b, c, d] [] [] = Inr (means, stddevs)" "k < 4"
  shows "0 \<le> stddevs ! k"
proof -
  from assms(1) obtain sa sb sc sd where
    "StandardDeviationSample a = Inr sa" "StandardDeviationSample b = Inr sb"
    "StandardDeviationSample c = Inr sc" "StandardDeviationSample d = Inr sd"
    "stddevs = [sa, sb, sc, sd]"
    unfolding channel_stats_four by blast
  then have "\<forall>k<4. 0 \<le> stddevs ! k"
    by (simp add: all_less_4 sd_nonneg)
  with assms(2) show ?thesis by blast
qed

lemma stack1_stats:
  "channel_stats (channels_of stack1) [] [] = Inr ([2, 0, 0, 65535], [2, 0, 0, 0])"
  by (simp add: channels_of_def stack1_def channel_def float64_def Mean_def
      StandardDeviationSample_def)

lemma stack1_filter_13:
  "filter_loop (13 / 10) [2, 0, 0, 65535] [2, 0, 0, 0] stack1 ([], [], [], [])
     = ([1, 1, 1], [0, 0, 0], [0, 0, 0], [65535, 65535, 65535])"
  by (simp add: stack1_def rejected_def outside_def float64_def)

text \<open>
  Claim C10. After the filtering pass of \<^verbatim>\<open>meanColor\<close> the four survivor slices have
  equal length, so one of them is empty if and only if each of the others is, and the test
  \<^verbatim>\<open>len(rsFilt) == 0 || len(gsFilt) == 0 || len(bsFilt) == 0 || len(asFilt) == 0\<close> is
  equivalent to the test of any single slice.
\<close>

theorem survivor_slices_same_length:
  assumes "filter_loop N means stddevs cs ([], [], [], []) = (rsFilt, gsFilt, bsFilt, asFilt)"
  shows "length gsFilt = length rsFilt \<and> length bsFilt = length rsFilt
         \<and> length asFilt = length rsFilt
         \<and> (rsFilt = [] \<longleftrightarrow> gsFilt = []) \<and> (rsFilt = [] \<longleftrightarrow> bsFilt = [])
         \<and> (rsFilt = [] \<longleftrightarrow> asFilt = [])
         \<and> ((length rsFilt = 0 \<or> length gsFilt = 0 \<or> length bsFilt = 0 \<or> length asFilt = 0)
              \<longleftrightarrow> length rsFilt = 0)
         \<and> ((length rsFilt = 0 \<or> length gsFilt = 0 \<or> length bsFilt = 0 \<or> length asFilt = 0)
              \<longleftrightarrow> length gsFilt = 0)
         \<and> ((length rsFilt = 0 \<or> length gsFilt = 0 \<or> length bsFilt = 0 \<or> length asFilt = 0)
              \<longleftrightarrow> length bsFilt = 0)
         \<and> ((length rsFilt = 0 \<or> length gsFilt = 0 \<or> length bsFilt = 0 \<or> length asFilt = 0)
              \<longleftrightarrow> length asFilt = 0)"
proof -
  from assms have "length gsFilt = length rsFilt" "length bsFilt = length rsFilt"
    "length asFilt = length rsFilt"
    by (auto simp: filter_loop_eq)
  then show ?thesis by auto
qed

theorem survivor_slices_same_length_witness:
  "filter_loop (13 / 10) [2, 0, 0, 65535] [2, 0, 0, 0] stack1 ([], [], [], [])
     = ([1, 1, 1], [0, 0, 0], [0, 0, 0], [65535, 65535, 65535])
   \<and> length [0, 0, 0 :: real] = length [1, 1, 1 :: real]"
  using survivor_slices_same_length [OF stack1_filter_13] stack1_filter_13 by simp

text \<open>
  Claim C7. For a fixed stack, with the means and standard deviations computed from it, and
  thresholds \<open>0 < N1 \<le> N2\<close>, the positions of the samples rejected at \<open>N2\<close> are among
  the positions rejected at \<open>N1\<close>.
\<close>

theorem filter_monotone_in_N:
  assumes stats: "channel_stats (channels_of cs) [] [] = Inr (means, stddevs)"
    and N: "0 < N1" "N1 \<le> N2"
  shows "{i. i < length cs \<and> rejected N2 means stddevs (cs ! i)}
           \<subseteq> {i. i < length cs \<and> rejected N1 means stddevs (cs ! i)}"
proof -
  have "rejected N1 means stddevs c" if r: "rejected N2 means stddevs c" for c
  proof -
    from r obtain k where k: "k < 4" "outside N2 means stddevs k (channel k c)"
      unfolding rejected_iff by blast
    from stats k(1) have "0 \<le> stddevs ! k"
      unfolding channels_of_def by (rule stddevs_nonneg)
    with N have "N1 * stddevs ! k \<le> N2 * stddevs ! k"
      by (simp add: mult_right_mono)
    with k(2) have "outside N1 means stddevs k (channel k c)"
      unfolding outside_def by linarith
    with k(1) show ?thesis unfolding rejected_iff by blast
  qed
  then show ?thesis by blast
qed

theorem filter_monotone_in_N_witness:
  "channel_stats (channels_of stack1) [] [] = Inr ([2, 0, 0, 65535], [2, 0, 0, 0])
   \<and> (0::real) < 13 / 10 \<and> (13 / 10 :: real) \<le> 3 / 2
   \<and> {i. i < length stack1 \<and> rejected (3 / 2) [2, 0, 0, 65535] [2, 0, 0, 0] (stack1 ! i)}
        \<subseteq> {i. i < length stack1 \<and> rejected (13 / 10) [2, 0, 0, 65535] [2, 0, 0, 0] (stack1 ! i)}"
  using filter_monotone_in_N [OF stack1_stats, of "13 / 10" "3 / 2"] stack1_stats by simp

section \<open>The filtering pass in double precision\<close>

text \<open>Without rounding the definitions in double precision are the exact ones.\<close>

lemma foldl_plus: "foldl (\<lambda>a v. a + v) a xs = a + sum_list (xs :: real list)"
  by (induction xs arbitrary: a) simp_all

lemma fsum_exact_arith: "fsum (\<lambda>x. x) values = sum_list values"
  by (simp add: fsum_def foldl_plus)

lemma Mean_fl_id: "Mean_fl (\<lambda>x. x) values = Mean values"
  by (simp add: Mean_fl_def Mean_def fsum_exact_arith)

lemma StandardDeviationSample_fl_id:
  "StandardDeviationSample_fl (\<lambda>x. x) values = StandardDeviationSample values"
  by (simp add: StandardDeviationSample_fl_def StandardDeviationSample_def fsum_exact_arith)

lemma channel_stats_fl_id:
  "channel_stats_fl (\<lambda>x. x) channels means stddevs = channel_stats channels means stddevs"
  by (induction channels arbitrary: means stddevs)
    (simp_all add: Mean_fl_id StandardDeviationSample_fl_id split: sum.splits)

lemma outside_fl_id: "outside_fl (\<lambda>x. x) N means stddevs k v = outside N means stddevs k v"
  by (simp add: outside_fl_def outside_def)

lemma rejected_fl_id: "rejected_fl (\<lambda>x. x) N means stddevs c = rejected N means stddevs c"
  by (simp add: rejected_fl_def rejected_def outside_fl_id)

lemma filter_loop_fl_id:
  "filter_loop_fl (\<lambda>x. x) N means stddevs cs acc = filter_loop N means stddevs cs acc"
  by (induction cs arbitrary: acc) (auto simp: rejected_fl_id)

lemma filter_loop_fl_eq:
  "filter_loop_fl fl N means stddevs cs (rs, gs, bs, as) =
     (rs @ map (channel 0) (filter (\<lambda>c. \<not> rejected_fl fl N means stddevs c) cs),
      gs @ map (channel 1) (filter (\<lambda>c. \<not> rejected_fl fl N means stddevs c) cs),
      bs @ map (channel 2) (filter (\<lambda>c. \<not> rejected_fl fl N means stddevs c) cs),
      as @ map (channel 3) (filter (\<lambda>c. \<not> rejected_fl fl N means stddevs c) cs))"
  by (induction cs arbitrary: rs gs bs as) (simp_all add: channel_def)

lemma rejected_fl_iff:
  "rejected_fl fl N means stddevs c \<longleftrightarrow> (\<exists>k<4. outside_fl fl N means stddevs k (channel k c))"
  by (simp add: ex_less_4 rejected_fl_def channel_def)

lemma sqrt_25: "sqrt 25 = 5"
  by (rule real_sqrt_unique) simp_all

lemma stack2_stats:
  "channel_stats_fl round64 (channels_of stack2) [] [] = Inr ([5, 0, 0, 65535], [5, 0, 0, 0])"
  by (simp add: channels_of_def stack2_def channel_def float64_def Mean_fl_def
      StandardDeviationSample_fl_def fsum_def sqrt_25)

lemma round64_N14_5: "round64 (N14 * 5) = 7"
  unfolding N14_def by (subst round64_at [where e = 2]) (simp_all add: pow2_def rne_def)

lemma stack2_filter_N14:
  "filter_loop_fl round64 N14 [5, 0, 0, 65535] [5, 0, 0, 0] stack2 ([], [], [], [])
     = ([0, 1, 4, 8, 12], [0, 0, 0, 0, 0], [0, 0, 0, 0, 0],
        [65535, 65535, 65535, 65535, 65535])"
  by (simp add: stack2_def rejected_fl_def outside_fl_def float64_def round64_N14_5)

lemma stack2_filter_1:
  "filter_loop_fl round64 1 [5, 0, 0, 65535] [5, 0, 0, 0] stack2 ([], [], [], [])
     = ([0, 1, 4, 8], [0, 0, 0, 0], [0, 0, 0, 0], [65535, 65535, 65535, 65535])"
  by (simp add: stack2_def rejected_fl_def outside_fl_def float64_def)

text \<open>
  Claim C2. A sample is rejected if and only if at least one of its four channel values
  lies outside the band of that channel, the bounds being the \<^verbatim>\<open>float64\<close> values the
  program computes for \<^verbatim>\<open>means[k]-N*stddevs[k]\<close> and \<^verbatim>\<open>means[k]+N*stddevs[k]\<close>; and the
  four survivor slices hold the channel values of exactly the samples that are not
  rejected, in input order: a rejected sample is missing from all four slices. This holds
  for every rounding \<open>fl\<close>.
\<close>

theorem rejection_is_per_sample:
  assumes "filter_loop_fl fl N means stddevs cs ([], [], [], []) = (rsFilt, gsFilt, bsFilt, asFilt)"
  shows "(\<forall>c. rejected_fl fl N means stddevs c \<longleftrightarrow>
              (\<exists>k<4. channel k c > fl (means ! k + fl (N * stddevs ! k))
                     \<or> channel k c < fl (means ! k - fl (N * stddevs ! k))))
         \<and> rsFilt = map (channel 0) (filter (\<lambda>c. \<not> rejected_fl fl N means stddevs c) cs)
         \<and> gsFilt = map (channel 1) (filter (\<lambda>c. \<not> rejected_fl fl N means stddevs c) cs)
         \<and> bsFilt = map (channel 2) (filter (\<lambda>c. \<not> rejected_fl fl N means stddevs c) cs)
         \<and> asFilt = map (channel 3) (filter (\<lambda>c. \<not> rejected_fl fl N means stddevs c) cs)"
  using assms by (simp add: filter_loop_fl_eq rejected_fl_iff outside_fl_def)

theorem rejection_is_per_sample_witness:
  "filter_loop_fl round64 1 [5, 0, 0, 65535] [5, 0, 0, 0] stack2 ([], [], [], [])
     = ([0, 1, 4, 8], [0, 0, 0, 0], [0, 0, 0, 0], [65535, 65535, 65535, 65535])
   \<and> rejected_fl round64 1 [5, 0, 0, 65535] [5, 0, 0, 0]
        \<lparr>red = 12, green = 0, blue = 0, alpha = 65535\<rparr>
   \<and> \<not> rejected_fl round64 1 [5, 0, 0, 65535] [5, 0, 0, 0]
        \<lparr>red = 8, green = 0, blue = 0, alpha = 65535\<rparr>"
  using rejection_is_per_sample [OF stack2_filter_1] stack2_filter_1
  by (simp add: ex_less_4 channel_def float64_def)

lemma fl_nonneg: "mono fl \<Longrightarrow> fl 0 = 0 \<Longrightarrow> 0 \<le> x \<Longrightarrow> 0 \<le> fl x"
  by (metis monoD)

lemma foldl_fl_nonneg:
  assumes "mono fl" "fl 0 = (0::real)"
  shows "0 \<le> a \<Longrightarrow> \<forall>x\<in>set xs. 0 \<le> x \<Longrightarrow> 0 \<le> foldl (\<lambda>a v. fl (a + v)) a xs"
proof (induction xs arbitrary: a)
  case Nil
  then show ?case by simp
next
  case (Cons x xs)
  then have "0 \<le> fl (a + x)" by (intro fl_nonneg [OF assms]) simp
  with Cons show ?case by simp
qed

lemma sd_fl_nonneg:
  assumes fl: "mono fl" "fl 0 = 0"
    and sd: "StandardDeviationSample_fl fl xs = Inr s"
  shows "0 \<le> s"
proof -
  from sd have len: "2 \<le> length xs"
    by (simp add: StandardDeviationSample_fl_def split: if_splits)
  define m where "m = fl (fsum fl xs / real (length xs))"
  define q where "q = fsum fl (map (\<lambda>v. fl (fl (v - m) * fl (v - m))) xs)"
  have "\<forall>y\<in>set (map (\<lambda>v. fl (fl (v - m) * fl (v - m))) xs). 0 \<le> y"
    by (auto intro!: fl_nonneg [OF fl])
  then have "0 \<le> q" unfolding q_def fsum_def by (intro foldl_fl_nonneg [OF fl]) simp_all
  moreover from len have "0 < real (length xs) - 1" by simp
  ultimately have "0 \<le> q / (real (length xs) - 1)" by simp
  then have "0 \<le> fl (q / (real (length xs) - 1))" by (rule fl_nonneg [OF fl])
  then have "0 \<le> sqrt (fl (q / (real (length xs) - 1)))" by simp
  then have "0 \<le> fl (sqrt (fl (q / (real (length xs) - 1))))" by (rule fl_nonneg [OF fl])
  moreover from sd len have "s = fl (sqrt (fl (q / (real (length xs) - 1))))"
    by (simp add: StandardDeviationSample_fl_def Let_def q_def m_def)
  ultimately show ?thesis by simp
qed

lemma channel_stats_fl_four:
  "channel_stats_fl fl [a, b, c, d] [] [] = Inr (means, stddevs) \<longleftrightarrow>
     (\<exists>ma sa mb sb mc sc md sd.
        Mean_fl fl a = Inr ma \<and> StandardDeviationSample_fl fl a = Inr sa \<and>
        Mean_fl fl b = Inr mb \<and> StandardDeviationSample_fl fl b = Inr sb \<and>
        Mean_fl fl c = Inr mc \<and> StandardDeviationSample_fl fl c = Inr sc \<and>
        Mean_fl fl d = Inr md \<and> StandardDeviationSample_fl fl d = Inr sd \<and>
        means = [ma, mb, mc, md] \<and> stddevs = [sa, sb, sc, sd])"
  by (auto split: sum.splits)

lemma stddevs_fl_nonneg:
  assumes fl: "mono fl" "fl 0 = 0"
    and "channel_stats_fl fl [a, b, c, d] [] [] = Inr (means, stddevs)" "k < 4"
  shows "0 \<le> stddevs ! k"
proof -
  from assms(3) obtain sa sb sc sd where
    "StandardDeviationSample_fl fl a = Inr sa" "StandardDeviationSample_fl fl b = Inr sb"
    "StandardDeviationSample_fl fl c = Inr sc" "StandardDeviationSample_fl fl d = Inr sd"
    "stddevs = [sa, sb, sc, sd]"
    unfolding channel_stats_fl_four by blast
  then have "\<forall>k<4. 0 \<le> stddevs ! k"
    by (simp add: all_less_4 sd_fl_nonneg [OF fl])
  with assms(4) show ?thesis by blast
qed

text \<open>
  Claim C3. Let the rounding be monotone with \<open>fl 0 = 0\<close> (as \<open>round64\<close> is), the means
  and standard deviations be computed from a stack, and \<open>N\<close> be positive. A channel value
  exactly at the computed upper bound, the \<^verbatim>\<open>float64\<close> value of
  \<^verbatim>\<open>means[k]+N*stddevs[k]\<close>, or exactly at the computed lower bound, that of
  \<^verbatim>\<open>means[k]-N*stddevs[k]\<close>, does not fire the channel test; the test fires only for
  values strictly above the upper or strictly below the lower bound; a sample each of whose
  channels lies on a bound or between the bounds is retained, and a rejected sample has a
  channel strictly outside.
\<close>

theorem boundary_sample_retained:
  assumes fl: "mono fl" "fl 0 = 0"
    and stats: "channel_stats_fl fl (channels_of cs) [] [] = Inr (means, stddevs)"
    and N: "0 < N"
  shows "(\<forall>k<4. \<not> outside_fl fl N means stddevs k (fl (means ! k + fl (N * stddevs ! k)))
               \<and> \<not> outside_fl fl N means stddevs k (fl (means ! k - fl (N * stddevs ! k)))
               \<and> (\<forall>v. outside_fl fl N means stddevs k v \<longleftrightarrow>
                        v > fl (means ! k + fl (N * stddevs ! k))
                        \<or> v < fl (means ! k - fl (N * stddevs ! k))))
         \<and> (\<forall>c. (\<forall>k<4. fl (means ! k - fl (N * stddevs ! k)) \<le> channel k c
                        \<and> channel k c \<le> fl (means ! k + fl (N * stddevs ! k)))
                  \<longrightarrow> \<not> rejected_fl fl N means stddevs c)
         \<and> (\<forall>c. rejected_fl fl N means stddevs c
                  \<longrightarrow> (\<exists>k<4. channel k c > fl (means ! k + fl (N * stddevs ! k))
                             \<or> channel k c < fl (means ! k - fl (N * stddevs ! k))))"
proof -
  have lu: "fl (means ! k - fl (N * stddevs ! k)) \<le> fl (means ! k + fl (N * stddevs ! k))"
    if "k < 4" for k
  proof -
    from fl stats that have "0 \<le> stddevs ! k"
      unfolding channels_of_def by (rule stddevs_fl_nonneg)
    with N have "0 \<le> N * stddevs ! k" by simp
    then have "0 \<le> fl (N * stddevs ! k)" by (rule fl_nonneg [OF fl])
    then have "means ! k - fl (N * stddevs ! k) \<le> means ! k + fl (N * stddevs ! k)" by simp
    with fl(1) show ?thesis by (rule monoD)
  qed
  have a: "\<not> outside_fl fl N means stddevs k (fl (means ! k + fl (N * stddevs ! k)))
               \<and> \<not> outside_fl fl N means stddevs k (fl (means ! k - fl (N * stddevs ! k)))
               \<and> (\<forall>v. outside_fl fl N means stddevs k v \<longleftrightarrow>
                        v > fl (means ! k + fl (N * stddevs ! k))
                        \<or> v < fl (means ! k - fl (N * stddevs ! k)))"
    if "k < 4" for k
    using lu [OF that] unfolding outside_fl_def by auto
  have b: "\<not> rejected_fl fl N means stddevs c"
    if "\<forall>k<4. fl (means ! k - fl (N * stddevs ! k)) \<le> channel k c
                        \<and> channel k c \<le> fl (means ! k + fl (N * stddevs ! k))" for c
    using that unfolding rejected_fl_iff outside_fl_def by (auto simp: not_less)
  have c: "\<exists>k<4. channel k c > fl (means ! k + fl (N * stddevs ! k))
                             \<or> channel k c < fl (means ! k - fl (N * stddevs ! k))"
    if "rejected_fl fl N means stddevs c" for c
    using that unfolding rejected_fl_iff outside_fl_def by blast
  from a b c show ?thesis by blast
qed


theorem boundary_sample_retained_witness:
  "mono round64 \<and> round64 0 = 0
   \<and> channel_stats_fl round64 (channels_of stack2) [] [] = Inr ([5, 0, 0, 65535], [5, 0, 0, 0])
   \<and> 0 < N14
   \<and> channel 0 \<lparr>red = 12, green = 0, blue = 0, alpha = 65535\<rparr>
       = round64 (5 + round64 (N14 * 5))
   \<and> 5 + N14 * 5 < channel 0 \<lparr>red = 12, green = 0, blue = 0, alpha = 65535\<rparr>
   \<and> \<not> rejected_fl round64 N14 [5, 0, 0, 65535] [5, 0, 0, 0]
          \<lparr>red = 12, green = 0, blue = 0, alpha = 65535\<rparr>"
proof -
  let ?c = "\<lparr>red = 12, green = 0, blue = 0, alpha = 65535 :: 32 word\<rparr>"
  let ?means = "[5, 0, 0, 65535 :: real]"
  let ?sds = "[5, 0, 0, 0 :: real]"
  have n: "0 < N14" by (simp add: N14_def)
  have z: "round64 0 = 0" by simp
  have c: "\<forall>k<4. round64 (?means ! k - round64 (N14 * ?sds ! k)) \<le> channel k ?c
                 \<and> channel k ?c \<le> round64 (?means ! k + round64 (N14 * ?sds ! k))"
    by (simp add: all_less_4 channel_def float64_def round64_N14_5)
  have "\<not> rejected_fl round64 N14 ?means ?sds ?c"
    using boundary_sample_retained [OF mono_round64 z stack2_stats n] c by blast
  moreover have "channel 0 ?c = round64 (5 + round64 (N14 * 5))"
    by (simp add: channel_def float64_def round64_N14_5)
  moreover have "5 + N14 * 5 < channel 0 ?c"
    by (simp add: channel_def float64_def N14_def)
  ultimately show ?thesis using stack2_stats n mono_round64 by simp
qed


text \<open>
  The equal lengths of the survivor slices and the monotonicity of the filter in \<open>N\<close>,
  proved above in exact arithmetic, hold in double precision as well.
\<close>

lemma filter_loop_fl_lengths:
  assumes "filter_loop_fl fl N means stddevs cs ([], [], [], []) = (rsFilt, gsFilt, bsFilt, asFilt)"
  shows "length gsFilt = length rsFilt \<and> length bsFilt = length rsFilt
         \<and> length asFilt = length rsFilt"
  using assms by (auto simp: filter_loop_fl_eq)

lemma rejected_fl_antimono_N:
  assumes fl: "mono fl" "fl 0 = 0"
    and stats: "channel_stats_fl fl (channels_of cs) [] [] = Inr (means, stddevs)"
    and N: "N1 \<le> N2"
    and r: "rejected_fl fl N2 means stddevs c"
  shows "rejected_fl fl N1 means stddevs c"
proof -
  from r obtain k where k: "k < 4" "outside_fl fl N2 means stddevs k (channel k c)"
    unfolding rejected_fl_iff by blast
  from fl stats k(1) have "0 \<le> stddevs ! k"
    unfolding channels_of_def by (rule stddevs_fl_nonneg)
  with N have "N1 * stddevs ! k \<le> N2 * stddevs ! k" by (simp add: mult_right_mono)
  with fl(1) have p: "fl (N1 * stddevs ! k) \<le> fl (N2 * stddevs ! k)" by (rule monoD)
  then have "means ! k + fl (N1 * stddevs ! k) \<le> means ! k + fl (N2 * stddevs ! k)" by simp
  with fl(1) have u: "fl (means ! k + fl (N1 * stddevs ! k)) \<le> fl (means ! k + fl (N2 * stddevs ! k))"
    by (rule monoD)
  from p have "means ! k - fl (N2 * stddevs ! k) \<le> means ! k - fl (N1 * stddevs ! k)" by simp
  with fl(1) have l: "fl (means ! k - fl (N2 * stddevs ! k)) \<le> fl (means ! k - fl (N1 * stddevs ! k))"
    by (rule monoD)
  from k(2) u l have "outside_fl fl N1 means stddevs k (channel k c)"
    unfolding outside_fl_def by linarith
  with k(1) show ?thesis unfolding rejected_fl_iff by blast
qed


section \<open>The result of meanColor\<close>

lemma channel_simps:
  "channel 0 c = float64 (red c)" "channel 1 c = float64 (green c)"
  "channel 2 c = float64 (blue c)" "channel 3 c = float64 (alpha c)"
  "channel (Suc 0) c = float64 (green c)"
  by (simp_all add: channel_def)

lemma meanColor_unfold:
  "meanColor N cs =
     (case channel_stats (channels_of cs) [] [] of
        Inl e \<Rightarrow> Inl e
      | Inr (means, stddevs) \<Rightarrow>
          (let S = filter (\<lambda>c. \<not> rejected N means stddevs c) cs in
           if S = []
           then Inl (Errorf ''standard deviation filter removed all pixels; use a higher --N value to make the filter more permissive'' [])
           else Inr (RGBA64 (uint16 (sum_list (map (channel 0) S) / real (length S)))
                            (uint16 (sum_list (map (channel 1) S) / real (length S)))
                            (uint16 (sum_list (map (channel 2) S) / real (length S)))
                            (uint16 (sum_list (map (channel 3) S) / real (length S))))))"
proof (cases "channel_stats (channels_of cs) [] []")
  case (Inl e)
  then show ?thesis
    by (simp add: meanColor_def Let_def channels_of_def channel_simps [abs_def])
next
  case (Inr p)
  obtain means stddevs where p: "p = (means, stddevs)" by (cases p)
  have cs: "channel_stats [map (\<lambda>c. float64 (red c)) cs, map (\<lambda>c. float64 (green c)) cs,
              map (\<lambda>c. float64 (blue c)) cs, map (\<lambda>c. float64 (alpha c)) cs] [] []
              = Inr (means, stddevs)"
    using Inr p by (simp add: channels_of_def channel_simps [abs_def])
  show ?thesis
    unfolding meanColor_def Let_def cs
    using Inr p by (simp add: filter_loop_eq Mean_def)
qed




lemma uint_uint16:
  assumes "0 \<le> f" "f \<le> 65535"
  shows "uint (uint16 f) = \<lfloor>f\<rfloor>"
proof -
  from assms have "0 \<le> \<lfloor>f\<rfloor>" "\<lfloor>f\<rfloor> \<le> 65535" by (simp_all add: floor_le_iff le_floor_iff)
  then have "\<lfloor>f\<rfloor> mod 2 ^ 16 = \<lfloor>f\<rfloor>" by simp
  with assms(1) show ?thesis by (simp add: uint16_def uint_word_of_int take_bit_eq_mod)
qed

lemma float64_range:
  assumes "unat r \<le> 65535"
  shows "0 \<le> float64 r \<and> float64 r \<le> 65535"
proof -
  have a: "0 \<le> real (unat r)" by (rule of_nat_0_le_iff)
  from assms have "real (unat r) \<le> real 65535" by (rule of_nat_mono)
  also have "real 65535 = 65535" by simp
  finally have b: "real (unat r) \<le> 65535" .
  from a b show ?thesis unfolding float64_def by (rule conjI)
qed







lemma unat_uint16_float64:
  assumes "unat r \<le> 65535"
  shows "unat (uint16 (float64 r)) = unat r"
proof -
  from float64_range [OF assms] have "uint (uint16 (float64 r)) = \<lfloor>float64 r\<rfloor>"
    by (simp add: uint_uint16)
  also have "\<dots> = int (unat r)" unfolding float64_def by (rule floor_of_nat)
  finally have "nat (uint (uint16 (float64 r))) = unat r" by simp
  then show ?thesis by simp
qed

lemma constant_channel_stats:
  assumes len: "2 \<le> length xs" and same: "\<forall>x\<in>set xs. x = v"
  shows "Mean xs = Inr v \<and> StandardDeviationSample xs = Inr 0"
proof -
  from len have ne: "xs \<noteq> []" by auto
  from ne same have m: "sum_list xs / real (length xs) = v" by (rule mean_const)
  from len obtain s where s: "StandardDeviationSample xs = Inr s"
    by (simp add: StandardDeviationSample_def Let_def)
  from same have "\<forall>x\<in>set xs. \<forall>y\<in>set xs. x = y" by metis
  with sd_zero_iff [OF len s] s have "StandardDeviationSample xs = Inr 0" by simp
  moreover from ne m have "Mean xs = Inr v" by (simp add: Mean_def)
  ultimately show ?thesis by simp
qed

text \<open>
  Claim C8. For a stack of two or more identical pixels (with values in the range of
  \<^verbatim>\<open>Color.RGBA\<close>) and every \<open>N\<close>: the mean of each channel is the common value and
  the standard deviation of each channel is 0, the filter keeps every sample, and
  \<^verbatim>\<open>meanColor\<close> returns, without error, the pixel whose channels are the common values.
\<close>

theorem identical_stack_is_fixed:
  assumes len: "2 \<le> length cs" and same: "\<forall>c'\<in>set cs. c' = c" and rng: "in_range c"
  shows "channel_stats (channels_of cs) [] []
           = Inr ([channel 0 c, channel 1 c, channel 2 c, channel 3 c], [0, 0, 0, 0])
         \<and> filter (\<lambda>c'. \<not> rejected N [channel 0 c, channel 1 c, channel 2 c, channel 3 c]
                              [0, 0, 0, 0] c') cs = cs
         \<and> (\<exists>out. meanColor N cs = Inr out
                \<and> unat (R out) = unat (red c) \<and> unat (G out) = unat (green c)
                \<and> unat (B out) = unat (blue c) \<and> unat (A out) = unat (alpha c))"
proof -
  let ?means = "[channel 0 c, channel 1 c, channel 2 c, channel 3 c]"
  let ?sds = "[0, 0, 0, 0 :: real]"
  from len have ne: "cs \<noteq> []" by auto
  have ch: "Mean (map (channel k) cs) = Inr (channel k c)
            \<and> StandardDeviationSample (map (channel k) cs) = Inr 0" for k
    using len same by (intro constant_channel_stats) auto
  have stats: "channel_stats (channels_of cs) [] [] = Inr (?means, ?sds)"
    unfolding channels_of_def channel_stats_four using ch by simp
  have keep: "\<not> rejected N ?means ?sds c"
    by (simp add: rejected_iff ex_less_4 outside_def)
  have "\<forall>c'\<in>set cs. \<not> rejected N ?means ?sds c'"
  proof
    fix c' assume "c' \<in> set cs"
    with same have "c' = c" by blast
    with keep show "\<not> rejected N ?means ?sds c'" by simp
  qed
  then have S: "filter (\<lambda>c'. \<not> rejected N ?means ?sds c') cs = cs"
    by (rule filter_True)
  have mean: "sum_list (map (channel k) cs) / real (length cs) = channel k c" for k
  proof -
    have "\<forall>x\<in>set (map (channel k) cs). x = channel k c" using same by auto
    moreover have "map (channel k) cs \<noteq> []" using ne by simp
    ultimately have "sum_list (map (channel k) cs) / real (length (map (channel k) cs))
                       = channel k c"
      by (intro mean_const)
    then show ?thesis by simp
  qed
  define out where "out = RGBA64 (uint16 (channel 0 c)) (uint16 (channel 1 c))
                            (uint16 (channel 2 c)) (uint16 (channel 3 c))"
  have m: "meanColor N cs = Inr out"
    by (simp only: meanColor_unfold stats S Let_def mean out_def sum.case prod.case ne
        if_False)
  from rng have "unat (R out) = unat (red c)" "unat (G out) = unat (green c)"
    "unat (B out) = unat (blue c)" "unat (A out) = unat (alpha c)"
    by (simp_all add: out_def channel_def in_range_def unat_uint16_float64)
  with m stats S show ?thesis by blast
qed

lemma word16_of_unat:
  fixes w :: "16 word"
  shows "unat w = n \<Longrightarrow> w = of_nat n"
  by auto

theorem identical_stack_is_fixed_witness:
  "2 \<le> length [\<lparr>red = 10, green = 10, blue = 10, alpha = 255 :: 32 word\<rparr>,
                 \<lparr>red = 10, green = 10, blue = 10, alpha = 255\<rparr>]
   \<and> in_range \<lparr>red = 10, green = 10, blue = 10, alpha = 255\<rparr>
   \<and> meanColor (13 / 10) [\<lparr>red = 10, green = 10, blue = 10, alpha = 255\<rparr>,
                           \<lparr>red = 10, green = 10, blue = 10, alpha = 255\<rparr>]
       = Inr (RGBA64 10 10 10 255)"
proof -
  let ?c = "\<lparr>red = 10, green = 10, blue = 10, alpha = 255 :: 32 word\<rparr>"
  have l: "2 \<le> length [?c, ?c]" by simp
  have s: "\<forall>c'\<in>set [?c, ?c]. c' = ?c" by simp
  have r: "in_range ?c" by (simp add: in_range_def)
  from identical_stack_is_fixed [OF l s r, of "13 / 10"]
  obtain out where out: "meanColor (13 / 10) [?c, ?c] = Inr out"
    "unat (R out) = unat (red ?c)" "unat (G out) = unat (green ?c)"
    "unat (B out) = unat (blue ?c)" "unat (A out) = unat (alpha ?c)"
    by blast
  from out(2-5) have u: "unat (R out) = 10" "unat (G out) = 10" "unat (B out) = 10"
    "unat (A out) = 255" by simp_all
  have "R out = 10" "G out = 10" "B out = 10" "A out = 255"
    using word16_of_unat [OF u(1)] word16_of_unat [OF u(2)] word16_of_unat [OF u(3)]
      word16_of_unat [OF u(4)] by simp_all
  then have "out = RGBA64 10 10 10 255"
    by (cases out) simp
  with out(1) l r show ?thesis by simp
qed


section \<open>The loops of main\<close>

lemma x_loop_eq:
  "x_loop N images b y x st
     = run_coords N images (map (\<lambda>x. (x, y)) [x..X (Max_pt b) - 1]) st"
proof (induction N images b y x st rule: x_loop.induct)
  case (1 N images bounds y x st)
  show ?case
  proof (cases "x < X (Max_pt bounds)")
    case True
    then have u: "[x..X (Max_pt bounds) - 1] = x # [x + 1..X (Max_pt bounds) - 1]"
      by (simp add: upto_rec1)
    show ?thesis
    proof (cases "meanColor N (colors x y images)")
      case (Inl e)
      with True show ?thesis by (subst x_loop.simps) (simp add: u)
    next
      case (Inr c)
      with True "1.IH" [OF True Inr] show ?thesis by (subst x_loop.simps) (simp add: u)
    qed
  next
    case False
    then show ?thesis by (subst x_loop.simps) simp
  qed
qed

lemma run_coords_append:
  "failure st = None \<Longrightarrow>
   run_coords N images (ps @ qs) st =
     (let st' = run_coords N images ps st
      in if failure st' \<noteq> None then st' else run_coords N images qs st')"
proof (induction ps arbitrary: st)
  case Nil
  then show ?case by simp
next
  case (Cons p ps)
  obtain x y where p: "p = (x, y)" by (cases p)
  show ?case
  proof (cases "meanColor N (colors x y images)")
    case (Inl e)
    then show ?thesis by (simp add: p)
  next
    case (Inr c)
    with Cons.IH [of "st\<lparr>calls := calls st @ [(x, y)], writes := writes st @ [(x, y, c)]\<rparr>"]
      Cons.prems show ?thesis by (simp add: p)
  qed
qed

lemma y_loop_eq:
  "failure st = None \<Longrightarrow>
   y_loop N images b y st
     = run_coords N images
         (concat (map (\<lambda>y. map (\<lambda>x. (x, y)) [X (Min_pt b)..X (Max_pt b) - 1])
                    [y..Y (Max_pt b) - 1])) st"
proof (induction N images b y st rule: y_loop.induct)
  case (1 N images bounds y st)
  show ?case
  proof (cases "y < Y (Max_pt bounds)")
    case True
    then have u: "[y..Y (Max_pt bounds) - 1] = y # [y + 1..Y (Max_pt bounds) - 1]"
      by (simp add: upto_rec1)
    define st' where "st' = x_loop N images bounds y (X (Min_pt bounds)) st"
    show ?thesis
    proof (cases "failure st' = None")
      case ok: True
      from "1.IH" [OF True st'_def _ ok] ok
      have "y_loop N images bounds (y + 1) st'
              = run_coords N images
                  (concat (map (\<lambda>y. map (\<lambda>x. (x, y)) [X (Min_pt bounds)..X (Max_pt bounds) - 1])
                    [y + 1..Y (Max_pt bounds) - 1])) st'"
        by simp
      with True ok show ?thesis
        by (subst y_loop.simps)
          (simp add: u run_coords_append [OF "1.prems"] Let_def st'_def [symmetric]
            x_loop_eq [symmetric])
    next
      case False
      with True show ?thesis
        by (subst y_loop.simps)
          (simp add: u run_coords_append [OF "1.prems"] Let_def st'_def [symmetric]
            x_loop_eq [symmetric])
    qed
  next
    case False
    then show ?thesis by (subst y_loop.simps) simp
  qed
qed


lemma load_images_all:
  "map fs paths = map Decoded images \<Longrightarrow> load_images fs paths acc = Inr (acc @ images)"
proof (induction paths arbitrary: images acc)
  case Nil
  then show ?case by simp
next
  case (Cons p paths)
  then obtain i rest where "images = i # rest" "fs p = Decoded i"
    "map fs paths = map Decoded rest" by (cases images) auto
  with Cons.IH [of rest "acc @ [i]"] show ?case by simp
qed

lemma check_bounds_find:
  "check_bounds b images =
     (case find (\<lambda>i. Bounds i \<noteq> b) images of
        None \<Rightarrow> None
      | Some i \<Rightarrow>
          Some (Fatalf ''unsupported operation; cannot merge images of different sizes: %v, %v''
                  [ARect (Bounds i), ARect b]))"
  by (induction images) simp_all

lemma main_run_loaded:
  assumes glob: "Glob e = Inr paths"
    and load: "map (Open_Decode e) paths = map Decoded images"
    and ne: "images \<noteq> []"
  shows "main_run e =
     (case check_bounds (Bounds (hd images)) images of
        Some f \<Rightarrow> stop f
      | None \<Rightarrow>
          (let st = run_coords (nFlag e) images (coords (Bounds (hd images)))
                      \<lparr>failure = None, calls = [], writes = []\<rparr>
           in if failure st \<noteq> None then st
              else
                (case Create e of
                   Some er \<Rightarrow>
                     st\<lparr>failure :=
                          Some (Fatalf ''failed to create output file %v: %v''
                                  [AStr (outFlag e), AErr er])\<rparr>
                 | None \<Rightarrow>
                     (case Encode e (writes st) of
                        Some er \<Rightarrow>
                          st\<lparr>failure :=
                               Some (Fatalf ''failed to save image to output file %v: %v''
                                       [AStr (outFlag e), AErr er])\<rparr>
                      | None \<Rightarrow> st))))"
proof -
  from load ne have pne: "paths \<noteq> []" by auto
  from load have l: "load_images (Open_Decode e) paths [] = Inr images"
    using load_images_all [of "Open_Decode e" paths images "[]"] by simp
  obtain i0 rest where im: "images = i0 # rest" using ne by (cases images) auto
  show ?thesis
    unfolding main_run_def glob
    using pne
    by (simp add: l im Let_def coords_def y_loop_eq split: option.splits)
qed


section \<open>Fatal exits of main\<close>







lemma upto_0_0: "[0..(0::int)] = [0]"
  by (simp add: upto.simps)


lemma coords_unit: "coords (Bounds (unit_image c)) = [(0, 0)]"
  by (simp add: coords_def unit_image_def upto_0_0)







text \<open>
  Claim C6. Let every listed file decode. If the bounds of some image differ from the bounds
  of the first image, the run ends fatally with the message ``unsupported operation; cannot
  merge images of different sizes'' carrying the bounds of the first differing image and
  the bounds of the first image; \<^verbatim>\<open>meanColor\<close> is never invoked and no pixel is written.
\<close>

theorem bounds_mismatch_is_fatal:
  assumes glob: "Glob e = Inr paths"
    and load: "map (Open_Decode e) paths = map Decoded images"
    and diff: "\<exists>i\<in>set images. Bounds i \<noteq> Bounds (hd images)"
  shows "\<exists>i\<in>set images. Bounds i \<noteq> Bounds (hd images)
           \<and> find (\<lambda>i. Bounds i \<noteq> Bounds (hd images)) images = Some i
           \<and> main_run e =
               \<lparr>failure =
                  Some (Fatalf ''unsupported operation; cannot merge images of different sizes: %v, %v''
                          [ARect (Bounds i), ARect (Bounds (hd images))]),
                calls = [], writes = []\<rparr>"
proof -
  from diff have ne: "images \<noteq> []" by auto
  from diff obtain i where i: "find (\<lambda>i. Bounds i \<noteq> Bounds (hd images)) images = Some i"
    by (cases "find (\<lambda>i. Bounds i \<noteq> Bounds (hd images)) images") (auto simp: find_None_iff)
  then have mem: "i \<in> set images" "Bounds i \<noteq> Bounds (hd images)"
    by (auto simp: find_Some_iff)
  have "main_run e = stop (Fatalf ''unsupported operation; cannot merge images of different sizes: %v, %v''
                          [ARect (Bounds i), ARect (Bounds (hd images))])"
    unfolding main_run_loaded [OF glob load ne] by (simp add: check_bounds_find i)
  with mem i show ?thesis by (auto simp: stop_def)
qed

lemma mismatch_env_loads:
  "Glob mismatch_env = Inr [''in/1.jpeg'', ''in/2.jpeg'']"
  "map (Open_Decode mismatch_env) [''in/1.jpeg'', ''in/2.jpeg'']
     = map Decoded [unit_image pixel1, two_pixel_image pixel1 pixel1]"
  by (simp_all add: mismatch_env_def example_env_def)

theorem bounds_mismatch_is_fatal_witness:
  "Glob mismatch_env = Inr [''in/1.jpeg'', ''in/2.jpeg'']
   \<and> Bounds (two_pixel_image pixel1 pixel1) \<noteq> Bounds (unit_image pixel1)
   \<and> main_run mismatch_env =
       \<lparr>failure =
          Some (Fatalf ''unsupported operation; cannot merge images of different sizes: %v, %v''
                  [ARect \<lparr>Min_pt = \<lparr>X = 0, Y = 0\<rparr>, Max_pt = \<lparr>X = 2, Y = 1\<rparr>\<rparr>,
                   ARect \<lparr>Min_pt = \<lparr>X = 0, Y = 0\<rparr>, Max_pt = \<lparr>X = 1, Y = 1\<rparr>\<rparr>]),
        calls = [], writes = []\<rparr>"
proof -
  let ?images = "[unit_image pixel1, two_pixel_image pixel1 pixel1]"
  have d: "Bounds (two_pixel_image pixel1 pixel1) \<noteq> Bounds (unit_image pixel1)"
    by (simp add: two_pixel_image_def unit_image_def)
  then have diff: "\<exists>i\<in>set ?images. Bounds i \<noteq> Bounds (hd ?images)" by simp
  from bounds_mismatch_is_fatal [OF mismatch_env_loads diff]
  obtain i where i: "find (\<lambda>i. Bounds i \<noteq> Bounds (hd ?images)) ?images = Some i"
    "main_run mismatch_env =
               \<lparr>failure =
                  Some (Fatalf ''unsupported operation; cannot merge images of different sizes: %v, %v''
                          [ARect (Bounds i), ARect (Bounds (hd ?images))]),
                calls = [], writes = []\<rparr>"
    by blast
  from i(1) d have "i = two_pixel_image pixel1 pixel1" by simp
  with i(2) d mismatch_env_loads(1) show ?thesis
    by (simp add: two_pixel_image_def unit_image_def)
qed


lemma run_coords_calls_prefix:
  "\<exists>zs. calls (run_coords N images ps st) = calls st @ zs"
proof (induction ps arbitrary: st)
  case Nil
  then show ?case by simp
next
  case (Cons p ps)
  obtain x y where p: "p = (x, y)" by (cases p)
  show ?case
  proof (cases "meanColor N (colors x y images)")
    case (Inl e)
    then show ?thesis by (simp add: p)
  next
    case (Inr c)
    from Cons.IH [of "st\<lparr>calls := calls st @ [(x, y)], writes := writes st @ [(x, y, c)]\<rparr>"]
    show ?thesis by (auto simp: p Inr)
  qed
qed

lemma run_coords_first_call:
  "\<exists>zs. calls (run_coords N images (q # qs) st) = calls st @ q # zs"
proof -
  obtain x y where q: "q = (x, y)" by (cases q)
  show ?thesis
  proof (cases "meanColor N (colors x y images)")
    case (Inl e)
    then show ?thesis by (simp add: q)
  next
    case (Inr c)
    from run_coords_calls_prefix
      [of N images qs "st\<lparr>calls := calls st @ [(x, y)], writes := writes st @ [(x, y, c)]\<rparr>"]
    show ?thesis by (auto simp: q Inr)
  qed
qed

lemma single_env_loads:
  "Glob single_env = Inr [''in/1.jpeg'']"
  "map (Open_Decode single_env) [''in/1.jpeg''] = map Decoded [unit_image pixel1]"
  by (simp_all add: single_env_def example_env_def)

lemma meanColor_single:
  "meanColor N [c] =
     Inl (Errorf ''failed to compute sample standard deviation %v: %v''
            [AFloats [float64 (red c)], AStats InsufficientSamplesError])"
  by (simp add: meanColor_def Mean_def StandardDeviationSample_def)

text \<open>
  Claim C4, as stated, fails: \<^verbatim>\<open>main\<close> tests only \<^verbatim>\<open>len(paths) == 0\<close>. In a run with a
  single image of one pixel, \<^verbatim>\<open>meanColor\<close> is invoked at \<open>(0, 0)\<close>: pixel processing has
  begun, and the run does not end with the only fatal exit that concerns the number of
  inputs.
\<close>

theorem single_image_is_processed:
  "calls (main_run single_env) = [(0, 0)]
   \<and> failure (main_run single_env)
       \<noteq> Some (Fatalf ''no files found for path: %v'' [AStr ''in/*.jpeg''])"
  unfolding main_run_loaded [OF single_env_loads, simplified]
  by (simp add: coords_unit colors_def meanColor_single)

text \<open>
  Claim C4, amended. A run whose pattern matches no file ends fatally with ``no files found
  for path'' before any image is loaded and before any pixel is processed. A run with
  exactly one image is not stopped before the pixel loops: when its bounds are not empty,
  \<^verbatim>\<open>meanColor\<close> is invoked, first at \<open>(Min.X, Min.Y)\<close>.
\<close>

theorem only_zero_files_rejected_up_front:
  "(Glob e = Inr [] \<longrightarrow>
      main_run e = \<lparr>failure = Some (Fatalf ''no files found for path: %v'' [AStr (pathFlag e)]),
                    calls = [], writes = []\<rparr>)
   \<and> (Glob e = Inr [p] \<and> Open_Decode e p = Decoded i
        \<and> X (Min_pt (Bounds i)) < X (Max_pt (Bounds i))
        \<and> Y (Min_pt (Bounds i)) < Y (Max_pt (Bounds i))
      \<longrightarrow> calls (main_run e) \<noteq> []
          \<and> hd (calls (main_run e)) = (X (Min_pt (Bounds i)), Y (Min_pt (Bounds i))))"
proof (intro conjI impI)
  assume "Glob e = Inr []"
  then show "main_run e = \<lparr>failure = Some (Fatalf ''no files found for path: %v'' [AStr (pathFlag e)]),
                    calls = [], writes = []\<rparr>"
    by (simp add: main_run_def stop_def)
next
  assume a: "Glob e = Inr [p] \<and> Open_Decode e p = Decoded i
        \<and> X (Min_pt (Bounds i)) < X (Max_pt (Bounds i))
        \<and> Y (Min_pt (Bounds i)) < Y (Max_pt (Bounds i))"
  let ?init = "\<lparr>failure = None, calls = [], writes = []\<rparr>"
  let ?fin = "run_coords (nFlag e) [i] (coords (Bounds i)) ?init"
  from a have c: "coords (Bounds i) = (X (Min_pt (Bounds i)), Y (Min_pt (Bounds i)))
          # tl (coords (Bounds i))"
    by (simp add: coords_def upto_rec1 [of "X (Min_pt (Bounds i))"]
        upto_rec1 [of "Y (Min_pt (Bounds i))"])
  have m: "calls (main_run e) = calls ?fin"
    using a main_run_loaded [of e "[p]" "[i]"]
    by (simp add: Let_def split: option.splits)
  from run_coords_first_call
    [of "nFlag e" "[i]" "(X (Min_pt (Bounds i)), Y (Min_pt (Bounds i)))"
      "tl (coords (Bounds i))" ?init] c
  obtain zs where "calls ?fin = (X (Min_pt (Bounds i)), Y (Min_pt (Bounds i))) # zs"
    by auto
  with m show "calls (main_run e) \<noteq> []"
    and "hd (calls (main_run e)) = (X (Min_pt (Bounds i)), Y (Min_pt (Bounds i)))"
    by simp_all
qed


theorem only_zero_files_rejected_up_front_witness:
  "Glob (example_env (13 / 10) []) = Inr []
   \<and> main_run (example_env (13 / 10) []) =
       \<lparr>failure = Some (Fatalf ''no files found for path: %v'' [AStr ''in/*.jpeg'']),
        calls = [], writes = []\<rparr>
   \<and> Glob single_env = Inr [''in/1.jpeg'']
   \<and> Open_Decode single_env ''in/1.jpeg'' = Decoded (unit_image pixel1)
   \<and> X (Min_pt (Bounds (unit_image pixel1))) < X (Max_pt (Bounds (unit_image pixel1)))
   \<and> Y (Min_pt (Bounds (unit_image pixel1))) < Y (Max_pt (Bounds (unit_image pixel1)))
   \<and> hd (calls (main_run single_env)) = (0, 0)"
  using only_zero_files_rejected_up_front [of "example_env (13 / 10) []"]
    only_zero_files_rejected_up_front [of single_env "''in/1.jpeg''" "unit_image pixel1"]
  by (simp add: single_env_def example_env_def unit_image_def)

section \<open>The sample standard deviation in double precision\<close>

lemma tenth_sd:
  "StandardDeviationSample_fl round64 [tenth, tenth, tenth] = Inr (round64 (sqrt (3 / 2 ^ 113)))"
proof -
  define t2 :: real where "t2 = 3602879701896397 / 18014398509481984"
  define t3 :: real where "t3 = 1351079888211149 / 4503599627370496"
  define m :: real where "m = 7205759403792795 / 72057594037927936"
  define dd :: real where "dd = - (1 / 2 ^ 56)"
  define sq :: real where "sq = 1 / 2 ^ 112"
  define s2 :: real where "s2 = 1 / 2 ^ 111"
  define s3 :: real where "s3 = 3 / 2 ^ 112"
  have a1: "round64 tenth = tenth"
    unfolding tenth_def using round64_dyadic [of 3602879701896397 55] by simp
  have a2: "round64 (2 * tenth) = t2"
    unfolding tenth_def t2_def using round64_dyadic [of 3602879701896397 54] by simp
  have a3: "round64 (t2 + tenth) = t3"
    unfolding tenth_def t2_def t3_def
    by (subst round64_at [where e = "- 2"]) (simp_all add: pow2_def rne_def)
  have am: "round64 (t3 / 3) = m"
    unfolding t3_def m_def
    by (subst round64_at [where e = "- 4"]) (simp_all add: pow2_def rne_def)
  have d: "round64 (tenth - m) = dd"
    unfolding tenth_def m_def dd_def using round64_dyadic [of "- 1" 56] by simp
  have q1: "round64 (dd * dd) = sq"
    unfolding dd_def sq_def using round64_dyadic [of 1 112] by simp
  have b1: "round64 sq = sq"
    unfolding sq_def using round64_dyadic [of 1 112] by simp
  have b2: "round64 (2 * sq) = s2"
    unfolding sq_def s2_def using round64_dyadic [of 1 111] by simp
  have b3: "round64 (s2 + sq) = s3"
    unfolding sq_def s2_def s3_def using round64_dyadic [of 3 112] by simp
  have v: "round64 (s3 / 2) = 3 / 2 ^ 113"
    unfolding s3_def using round64_dyadic [of 3 113] by simp
  show ?thesis
    by (simp add: StandardDeviationSample_fl_def Let_def fsum_def a1 a2 a3 am d q1 b1 b2 b3 v
        del: power_numeral)
qed

lemma tenth_sd_pos: "0 < round64 (sqrt (3 / 2 ^ 113))"
proof -
  have "(1 / 2 ^ 57)\<^sup>2 \<le> (3 / 2 ^ 113 :: real)" by (simp add: power2_eq_square)
  then have "1 / 2 ^ 57 \<le> sqrt (3 / 2 ^ 113)" by (rule real_le_rsqrt)
  then have "round64 (1 / 2 ^ 57) \<le> round64 (sqrt (3 / 2 ^ 113))" by (rule round64_mono)
  moreover have "round64 (1 / 2 ^ 57) = 1 / 2 ^ 57"
    using round64_dyadic [of 1 57] by simp
  ultimately show ?thesis by simp
qed

text \<open>
  Claim C9, as stated, fails in double precision, which the specification prescribes for
  this function: for three values equal to the \<^verbatim>\<open>float64\<close> nearest to 0.1 the computed
  mean differs from them by \<^verbatim>\<open>2^-56\<close>, and the sample standard deviation is the
  rounded square root of \<^verbatim>\<open>3 / 2^113\<close>, which is not 0.
\<close>

theorem sd_of_equal_values_not_zero:
  "StandardDeviationSample_fl round64 [tenth, tenth, tenth] = Inr (round64 (sqrt (3 / 2 ^ 113)))
   \<and> round64 (sqrt (3 / 2 ^ 113)) \<noteq> 0"
  using tenth_sd tenth_sd_pos by simp


lemma sum_list_nat_nonneg:
  "\<forall>x\<in>set xs. \<exists>k::nat. x = real k \<Longrightarrow> 0 \<le> sum_list xs"
  by (rule sum_list_nonneg) auto

lemma foldl_round64_nat:
  assumes "\<forall>x\<in>set xs. \<exists>k::nat. x = real k" "a = real ka" "a + sum_list xs < 2 ^ 53"
  shows "foldl (\<lambda>a v. round64 (a + v)) a xs = a + sum_list xs"
  using assms
proof (induction xs arbitrary: a ka)
  case Nil
  then show ?case by simp
next
  case (Cons x xs)
  from Cons.prems(1) obtain k :: nat where k: "x = real k" by auto
  from Cons.prems(1) have rest: "\<forall>x\<in>set xs. \<exists>k::nat. x = real k" by simp
  then have "0 \<le> sum_list xs" by (rule sum_list_nat_nonneg)
  with Cons.prems(3) have "a + x < 2 ^ 53" by simp
  with Cons.prems(2) k have "real_of_int (int (ka + k)) < real_of_int (2 ^ 53)" by simp
  then have "int (ka + k) < 2 ^ 53" by (simp only: of_int_less_iff)
  then have "round64 (of_int (int (ka + k))) = of_int (int (ka + k))"
    by (intro round64_int) simp
  with Cons.prems(2) k have r: "round64 (a + x) = a + x" by simp
  have "foldl (\<lambda>a v. round64 (a + v)) (a + x) xs = (a + x) + sum_list xs"
    using rest Cons.prems(2,3) k by (intro Cons.IH [of "a + x" "ka + k"]) simp_all
  then show ?case by (simp add: r)
qed

lemma sum_list_samples_bound:
  "\<forall>x\<in>set xs. \<exists>k::nat. k \<le> 65535 \<and> x = real k \<Longrightarrow> sum_list xs \<le> 65535 * real (length xs)"
proof (induction xs)
  case Nil
  then show ?case by simp
next
  case (Cons x xs)
  then obtain k :: nat where "k \<le> 65535" "x = real k" by auto
  then have "x \<le> 65535" by simp
  with Cons show ?case by (simp add: algebra_simps)
qed

lemma fsum_samples:
  assumes s: "\<forall>x\<in>set xs. \<exists>k::nat. k \<le> 65535 \<and> x = real k"
    and len: "length xs \<le> 2 ^ 37"
  shows "fsum round64 xs = sum_list xs"
proof -
  from len have "real (length xs) \<le> real (2 ^ 37)" by (simp only: of_nat_le_iff)
  then have "65535 * real (length xs) \<le> 65535 * 2 ^ 37" by simp
  with sum_list_samples_bound [OF s] have "sum_list xs < 2 ^ 53" by simp
  moreover from s have "\<forall>x\<in>set xs. \<exists>k::nat. x = real k" by blast
  ultimately have "foldl (\<lambda>a v. round64 (a + v)) 0 xs = 0 + sum_list xs"
    by (intro foldl_round64_nat [of xs 0 0]) simp_all
  then show ?thesis by (simp add: fsum_def)
qed

lemma fsum_zeros: "\<forall>y\<in>set ys. y = 0 \<Longrightarrow> fsum round64 ys = 0"
  unfolding fsum_def by (induction ys) simp_all

lemma sd_fl_value:
  assumes "2 \<le> length xs"
  shows "StandardDeviationSample_fl fl xs =
           Inr (fl (sqrt (fl (fsum fl (map (\<lambda>v. fl (fl (v - fl (fsum fl xs / real (length xs)))
                                                     * fl (v - fl (fsum fl xs / real (length xs))))) xs)
                              / (real (length xs) - 1)))))"
  using assms by (simp add: StandardDeviationSample_fl_def Let_def)

lemma sd64_equal_samples:
  assumes len: "2 \<le> length xs" "length xs \<le> 2 ^ 37"
    and s: "\<forall>x\<in>set xs. \<exists>k::nat. k \<le> 65535 \<and> x = real k"
    and eq: "\<forall>x\<in>set xs. \<forall>y\<in>set xs. x = y"
  shows "StandardDeviationSample_fl round64 xs = Inr 0"
proof -
  from len have ne: "xs \<noteq> []" by auto
  then obtain v where v: "v \<in> set xs" by (cases xs) auto
  with eq have all: "\<forall>x\<in>set xs. x = v" by blast
  from s v obtain k :: nat where k: "k \<le> 65535" "v = real k" by blast
  have "fsum round64 xs / real (length xs) = v"
    using mean_const [OF ne all] by (simp add: fsum_samples [OF s len(2)])
  moreover have "round64 v = v"
    using round64_int [of "int k"] k by simp
  ultimately have m: "round64 (fsum round64 xs / real (length xs)) = v" by simp
  have "\<forall>y\<in>set (map (\<lambda>x. round64 (round64 (x - v) * round64 (x - v))) xs). y = 0"
    using all by simp
  then have "fsum round64 (map (\<lambda>x. round64 (round64 (x - v) * round64 (x - v))) xs) = 0"
    by (rule fsum_zeros)
  then show ?thesis by (simp add: sd_fl_value [OF len(1)] m)
qed


lemma expo_pow2: "- 1022 \<le> j \<Longrightarrow> expo (pow2 j) = j"
proof -
  assume j: "- 1022 \<le> j"
  have "pow2 1 = 2" by (simp add: pow2_def)
  then have "pow2 (j + 1) = pow2 j * 2" by (simp only: pow2_add)
  with pow2_pos [of j] have "pow2 j < pow2 (j + 1)" by linarith
  then show ?thesis using j by (intro expo_eq) simp_all
qed

lemma round64_grid:
  assumes "pow2 (- 37) \<le> q"
  shows "\<exists>M::int. round64 q = of_int M * pow2 (- 89)"
proof -
  have p: "0 < pow2 (- 37)" by simp
  with assms have q: "0 < q" by linarith
  from expo_mono [OF p assms] have e: "- 37 \<le> expo q" by (simp add: expo_pow2)
  define n where "n = nat (expo q + 37)"
  from e have n: "expo q - 52 = int n + (- 89)" by (simp add: n_def)
  have "ulp q = 2 ^ n * pow2 (- 89)"
    unfolding ulp_def n by (simp only: pow2_add pow2_nat)
  then have "round_pos q = of_int (rne (q / ulp q) * 2 ^ n) * pow2 (- 89)"
    by (simp add: round_pos_def)
  moreover from q have "round64 q = round_pos q" by (simp add: round64_def)
  ultimately have "round64 q = of_int (rne (q / ulp q) * 2 ^ n) * pow2 (- 89)" by simp
  then show ?thesis by (rule exI)
qed

lemma grid_gap:
  assumes m: "m = of_int M * pow2 (- 89)" and x: "x = real k" and ne: "x \<noteq> m"
  shows "pow2 (- 89) \<le> \<bar>x - m\<bar>"
proof -
  have one: "2 ^ 89 * pow2 (- 89) = 1" by (simp add: pow2_def)
  have "x = of_int (int k * 2 ^ 89) * pow2 (- 89)"
    using one by (simp add: x)
  with m have d: "x - m = of_int (int k * 2 ^ 89 - M) * pow2 (- 89)"
    by (simp add: algebra_simps)
  with ne have "int k * 2 ^ 89 - M \<noteq> 0" by auto
  then have "1 \<le> \<bar>int k * 2 ^ 89 - M\<bar>" by linarith
  then have "1 \<le> \<bar>real_of_int (int k * 2 ^ 89 - M)\<bar>"
    by (metis of_int_1_le_iff of_int_abs)
  then have "1 * pow2 (- 89) \<le> \<bar>real_of_int (int k * 2 ^ 89 - M)\<bar> * pow2 (- 89)"
    by (intro mult_right_mono) simp_all
  then show ?thesis by (simp add: d abs_mult)
qed

lemma round64_abs_lower:
  assumes "c \<le> \<bar>d\<bar>" "round64 c = c"
  shows "c \<le> \<bar>round64 d\<bar>"
proof (cases "0 \<le> d")
  case True
  with assms(1) have "round64 c \<le> round64 d" by (intro round64_mono) simp
  with assms(2) show ?thesis by linarith
next
  case False
  with assms(1) have "round64 d \<le> round64 (- c)" by (intro round64_mono) simp
  with assms(2) show ?thesis by (simp add: round64_minus)
qed

lemma square_lower:
  fixes c d :: real
  assumes "c \<le> \<bar>d\<bar>" "0 \<le> c"
  shows "c * c \<le> d * d"
proof -
  from assms have "c * c \<le> \<bar>d\<bar> * \<bar>d\<bar>" by (intro mult_mono) simp_all
  then show ?thesis by simp
qed

lemma foldl_round64_keeps:
  assumes c: "round64 c = c"
  shows "c \<le> a \<Longrightarrow> \<forall>y\<in>set ys. 0 \<le> y \<Longrightarrow> c \<le> foldl (\<lambda>a v. round64 (a + v)) a ys"
proof (induction ys arbitrary: a)
  case Nil
  then show ?case by simp
next
  case (Cons y ys)
  then have "round64 c \<le> round64 (a + y)" by (intro round64_mono) simp
  with c Cons show ?case by simp
qed

lemma foldl_round64_reaches:
  assumes c: "round64 c = c"
  shows "0 \<le> a \<Longrightarrow> \<forall>y\<in>set ys. 0 \<le> y \<Longrightarrow> y0 \<in> set ys \<Longrightarrow> c \<le> y0
         \<Longrightarrow> c \<le> foldl (\<lambda>a v. round64 (a + v)) a ys"
proof (induction ys arbitrary: a)
  case Nil
  then show ?case by simp
next
  case (Cons y ys)
  show ?case
  proof (cases "y = y0")
    case True
    with Cons.prems have "round64 c \<le> round64 (a + y)" by (intro round64_mono) simp
    with c have "c \<le> round64 (a + y)" by simp
    with Cons.prems(2) show ?thesis by (simp add: foldl_round64_keeps [OF c])
  next
    case False
    with Cons.prems have "y0 \<in> set ys" by simp
    moreover from Cons.prems have "0 \<le> round64 (a + y)" by (intro round64_nonneg) simp
    ultimately show ?thesis using Cons.prems by (simp add: Cons.IH)
  qed
qed

lemma sd64_unequal_samples:
  assumes len: "2 \<le> length xs" "length xs \<le> 2 ^ 37"
    and s: "\<forall>x\<in>set xs. \<exists>k::nat. k \<le> 65535 \<and> x = real k"
    and neq: "\<not> (\<forall>x\<in>set xs. \<forall>y\<in>set xs. x = y)"
    and sd: "StandardDeviationSample_fl round64 xs = Inr sdev"
  shows "0 < sdev"
proof -
  define n where "n = real (length xs)"
  define m where "m = round64 (fsum round64 xs / n)"
  define g where "g = (\<lambda>v. round64 (round64 (v - m) * round64 (v - m)))"
  define V where "V = fsum round64 (map g xs)"
  from len have n: "2 \<le> n" "n \<le> 2 ^ 37"
    unfolding n_def by (simp, metis of_nat_le_iff of_nat_numeral of_nat_power)
  have sdev: "sdev = round64 (sqrt (round64 (V / (n - 1))))"
    using sd sd_fl_value [OF len(1), of round64] by (simp add: V_def g_def m_def n_def)
  \<comment> \<open>the sum of the samples is a positive integer\<close>
  have S: "fsum round64 xs = sum_list xs" by (rule fsum_samples [OF s len(2)])
  from neq obtain y1 y2 where "y1 \<in> set xs" "y2 \<in> set xs" "y1 \<noteq> y2" by blast
  then obtain x0 where x0: "x0 \<in> set xs" "x0 \<noteq> 0" by (cases "y1 = 0") auto
  from s x0 obtain k0 :: nat where k0: "x0 = real k0" by blast
  with x0 have "1 \<le> x0" by (cases k0) simp_all
  moreover have "x0 \<le> sum_list xs"
    using x0(1) s by (intro member_le_sum_list) auto
  ultimately have "1 \<le> sum_list xs" by linarith
  then have "1 / n \<le> sum_list xs / n" using n by (simp add: divide_right_mono)
  moreover have "pow2 (- 37) \<le> 1 / n"
  proof -
    have "pow2 (- 37) = 1 / 2 ^ 37" by (simp add: pow2_def)
    also have "\<dots> \<le> 1 / n" using n by (intro divide_left_mono) simp_all
    finally show ?thesis .
  qed
  ultimately have "pow2 (- 37) \<le> fsum round64 xs / n" by (simp add: S)
  then obtain M :: int where M: "m = of_int M * pow2 (- 89)"
    unfolding m_def using round64_grid by blast
  \<comment> \<open>some sample differs from the computed mean\<close>
  from neq obtain x where x: "x \<in> set xs" "x \<noteq> m" by metis
  from s x obtain k :: nat where k: "x = real k" by blast
  have c89: "round64 (pow2 (- 89)) = pow2 (- 89)" by (rule round64_pow2) simp
  have "pow2 (- 89) \<le> \<bar>round64 (x - m)\<bar>"
    using grid_gap [OF M k x(2)] c89 by (rule round64_abs_lower)
  then have "pow2 (- 89) * pow2 (- 89) \<le> round64 (x - m) * round64 (x - m)"
    by (rule square_lower) simp
  then have "pow2 (- 178) \<le> round64 (x - m) * round64 (x - m)"
    by (simp flip: pow2_add)
  then have "round64 (pow2 (- 178)) \<le> g x" unfolding g_def by (rule round64_mono)
  moreover have c178: "round64 (pow2 (- 178)) = pow2 (- 178)" by (rule round64_pow2) simp
  ultimately have gx: "pow2 (- 178) \<le> g x" by simp
  have "\<forall>y\<in>set (map g xs). 0 \<le> y"
    by (auto simp: g_def intro!: round64_nonneg)
  moreover from x(1) have "g x \<in> set (map g xs)" by simp
  ultimately have V: "pow2 (- 178) \<le> V"
    unfolding V_def fsum_def using gx
    by (intro foldl_round64_reaches [OF c178, of 0 "map g xs" "g x"]) simp_all
  \<comment> \<open>dividing by the count and taking the root stays above a representable bound\<close>
  have "pow2 (- 215) = pow2 (- 178) / 2 ^ 37" by (simp add: pow2_def)
  also have "\<dots> \<le> V / 2 ^ 37" using V by (simp add: divide_right_mono)
  also have "\<dots> \<le> V / (n - 1)"
  proof -
    have "0 \<le> V" using V pow2_pos [of "- 178"] by linarith
    then show ?thesis using n by (intro divide_left_mono) simp_all
  qed
  finally have "round64 (pow2 (- 215)) \<le> round64 (V / (n - 1))" by (rule round64_mono)
  moreover have "round64 (pow2 (- 215)) = pow2 (- 215)" by (rule round64_pow2) simp
  moreover have "pow2 (- 216) \<le> pow2 (- 215)" by (rule pow2_mono) simp
  ultimately have "(pow2 (- 108))\<^sup>2 \<le> round64 (V / (n - 1))"
    by (simp add: power2_eq_square flip: pow2_add)
  then have "pow2 (- 108) \<le> sqrt (round64 (V / (n - 1)))" by (rule real_le_rsqrt)
  then have "round64 (pow2 (- 108)) \<le> sdev" unfolding sdev by (rule round64_mono)
  moreover have "round64 (pow2 (- 108)) = pow2 (- 108)" by (rule round64_pow2) simp
  ultimately show ?thesis using pow2_pos [of "- 108"] by linarith
qed


text \<open>
  Claim C9, amended. For every sequence of at least two values the sample standard
  deviation in double precision is returned and is greater than or equal to 0. When the
  values are integers between 0 and 65535, as the channel samples that \<^verbatim>\<open>meanColor\<close>
  passes are, and there are at most \<^verbatim>\<open>2^37\<close> of them, it is 0 if and only if all values
  are equal.
\<close>

theorem sd_float64_spec:
  assumes "2 \<le> length values"
  shows "\<exists>s. StandardDeviationSample_fl round64 values = Inr s \<and> 0 \<le> s
             \<and> ((\<forall>x\<in>set values. \<exists>k::nat. k \<le> 65535 \<and> x = real k)
                   \<and> length values \<le> 2 ^ 37
                 \<longrightarrow> (s = 0 \<longleftrightarrow> (\<forall>x\<in>set values. \<forall>y\<in>set values. x = y)))"
proof -
  from assms obtain s where s: "StandardDeviationSample_fl round64 values = Inr s"
    by (simp add: StandardDeviationSample_fl_def Let_def)
  from mono_round64 round64_0 s have nn: "0 \<le> s" by (rule sd_fl_nonneg)
  have "s = 0 \<longleftrightarrow> (\<forall>x\<in>set values. \<forall>y\<in>set values. x = y)"
    if smp: "\<forall>x\<in>set values. \<exists>k::nat. k \<le> 65535 \<and> x = real k"
      and len: "length values \<le> 2 ^ 37"
  proof
    assume "s = 0"
    show "\<forall>x\<in>set values. \<forall>y\<in>set values. x = y"
    proof (rule ccontr)
      assume "\<not> (\<forall>x\<in>set values. \<forall>y\<in>set values. x = y)"
      from sd64_unequal_samples [OF assms len smp this s] \<open>s = 0\<close> show False by simp
    qed
  next
    assume "\<forall>x\<in>set values. \<forall>y\<in>set values. x = y"
    from sd64_equal_samples [OF assms len smp this] s show "s = 0" by simp
  qed
  with s nn show ?thesis by blast
qed

lemma sd64_example: "StandardDeviationSample_fl round64 [1, 1, 1, 5] = Inr 2"
  by (simp add: StandardDeviationSample_fl_def fsum_def)

theorem sd_float64_spec_witness:
  "2 \<le> length [7, 7 :: real] \<and> length [7, 7 :: real] \<le> 2 ^ 37
   \<and> StandardDeviationSample_fl round64 [7, 7] = Inr 0
   \<and> StandardDeviationSample_fl round64 [1, 1, 1, 5] = Inr 2"
proof -
  have l: "2 \<le> length [7, 7 :: real]" by simp
  have l37: "length [7, 7 :: real] \<le> 2 ^ 37" by simp
  have smp: "\<forall>x\<in>set [7, 7 :: real]. \<exists>k::nat. k \<le> 65535 \<and> x = real k"
  proof -
    have "(7::nat) \<le> 65535 \<and> (7::real) = real (7::nat)" by simp
    then have "\<exists>k::nat. k \<le> 65535 \<and> (7::real) = real k" by (rule exI)
    then show ?thesis by simp
  qed
  from sd_float64_spec [OF l] obtain s where
    s: "StandardDeviationSample_fl round64 [7, 7] = Inr s"
    and iff: "(\<forall>x\<in>set [7, 7 :: real]. \<exists>k::nat. k \<le> 65535 \<and> x = real k)
                \<and> length [7, 7 :: real] \<le> 2 ^ 37
              \<longrightarrow> (s = 0 \<longleftrightarrow> (\<forall>x\<in>set [7, 7 :: real]. \<forall>y\<in>set [7, 7]. x = y))"
    by blast
  from iff smp l37 have "s = 0 \<longleftrightarrow> (\<forall>x\<in>set [7, 7 :: real]. \<forall>y\<in>set [7, 7]. x = y)"
    by blast
  then have "s = 0" by simp
  with s l l37 sd64_example show ?thesis by simp
qed


end
